theory Spec2Isabelle
  imports Complex_Main "HOL-Library.Sublist" "HOL-Library.List_Lexorder" "HOL-Library.Char_ord"
begin

section \<open>JavaScript strings and arrays\<close>

text \<open>
  A JavaScript string is modelled as a \<^typ>\<open>string\<close>, one \<^typ>\<open>char\<close> per UTF-16 code
  unit (so the model covers strings whose code units are below 256), and \<open>text.length\<close> is
  \<^const>\<open>length\<close>. Integers that the code keeps in a \<open>number\<close> (token counts, offsets,
  limits, folder ids) are \<^typ>\<open>int\<close>.
\<close>

definition clampIndex :: "int \<Rightarrow> nat \<Rightarrow> nat" where
  "clampIndex i n = (if i < 0 then 0 else if int n < i then n else nat i)"

text \<open>\<open>s.substring(a, b)\<close>: both indices are clamped to \<open>[0, length]\<close> and swapped when \<open>a > b\<close>.\<close>

definition substring :: "string \<Rightarrow> int \<Rightarrow> int \<Rightarrow> string" where
  "substring s a b =
     (let a' = clampIndex a (length s); b' = clampIndex b (length s);
          lo = min a' b'; hi = max a' b'
      in take (hi - lo) (drop lo s))"

text \<open>\<open>s.lastIndexOf(c)\<close> for a one-character search string: the last position, or \<open>-1\<close>.\<close>

definition lastIndexOf :: "string \<Rightarrow> char \<Rightarrow> int" where
  "lastIndexOf s c =
     (if c \<in> set s
      then int (length s) - 1 - int (length (takeWhile (\<lambda>x. x \<noteq> c) (rev s)))
      else - 1)"

section \<open>Context manager (src/lib/context-manager.ts)\<close>

datatype role = System | User | Assistant

record OpenRouterMessage =
  role :: role
  content :: string

record MessageContext =
  messages :: "OpenRouterMessage list"
  totalTokens :: int
  truncated :: bool

record TokenLimits =
  maxTokens :: int
  maxMessages :: int
  reserveTokens :: int

text \<open>\<open>Partial<TokenLimits>\<close>: every field may be absent.\<close>

record PartialTokenLimits =
  pMaxTokens :: "int option"
  pMaxMessages :: "int option"
  pReserveTokens :: "int option"

definition DEFAULT_LIMITS :: TokenLimits where
  "DEFAULT_LIMITS = \<lparr>maxTokens = 8000, maxMessages = 20, reserveTokens = 1500\<rparr>"

text \<open>The object spread \<open>{ ...DEFAULT_LIMITS, ...limits }\<close>.\<close>

definition spreadLimits :: "TokenLimits \<Rightarrow> PartialTokenLimits \<Rightarrow> TokenLimits" where
  "spreadLimits d p =
     \<lparr>maxTokens = (case pMaxTokens p of Some v \<Rightarrow> v | None \<Rightarrow> maxTokens d),
      maxMessages = (case pMaxMessages p of Some v \<Rightarrow> v | None \<Rightarrow> maxMessages d),
      reserveTokens = (case pReserveTokens p of Some v \<Rightarrow> v | None \<Rightarrow> reserveTokens d)\<rparr>"

definition noLimits :: PartialTokenLimits where
  "noLimits = \<lparr>pMaxTokens = None, pMaxMessages = None, pReserveTokens = None\<rparr>"

definition asPartial :: "TokenLimits \<Rightarrow> PartialTokenLimits" where
  "asPartial l =
     \<lparr>pMaxTokens = Some (maxTokens l), pMaxMessages = Some (maxMessages l),
      pReserveTokens = Some (reserveTokens l)\<rparr>"

text \<open>\<open>Math.ceil(text.length / 4)\<close>.\<close>

definition estimateTokens :: "string \<Rightarrow> int" where
  "estimateTokens text = (int (length text) + 3) div 4"

definition estimateMessageTokens :: "OpenRouterMessage \<Rightarrow> int" where
  "estimateMessageTokens message = estimateTokens (content message) + 10"

text \<open>
  \<open>truncateText\<close>. The test \<open>lastSpace > maxChars * 0.8\<close> compares an integer with the
  double nearest to four fifths of an integer; for the magnitudes of a character count this
  is the integer comparison \<open>5 * lastSpace > 4 * maxChars\<close>, which is how it is written here.
\<close>

definition truncateText :: "string \<Rightarrow> int \<Rightarrow> string" where
  "truncateText text maxTokens' =
     (let maxChars = maxTokens' * 4 in
      if int (length text) \<le> maxChars then text
      else
        let truncated' = substring text 0 maxChars;
            lastSpace = lastIndexOf truncated' (CHR '' '')
        in if 4 * maxChars < 5 * lastSpace
           then substring truncated' 0 lastSpace @ ''...''
           else truncated' @ ''...'')"

text \<open>
  The loop state of \<open>buildContext\<close>: \<open>selectedMessages\<close>, \<open>usedTokens\<close>, \<open>truncated\<close>.
  \<open>includeLatest\<close> is the block "always include the latest user message".
\<close>

type_synonym selection = "OpenRouterMessage list \<times> int \<times> bool"

definition includeLatest :: "int \<Rightarrow> OpenRouterMessage \<Rightarrow> selection" where
  "includeLatest availableTokens latestMessage =
     (if role latestMessage = User then
        (let tokens = estimateMessageTokens latestMessage in
         if tokens \<le> availableTokens then ([latestMessage], tokens, False)
         else
           let truncatedContent = truncateText (content latestMessage) (availableTokens - 10)
           in ([latestMessage\<lparr>content := truncatedContent\<rparr>],
               estimateTokens truncatedContent + 10, True))
      else ([], 0, False))"

text \<open>
  The loop \<open>for (let i = 1; i < reversedMessages.length; i += 2)\<close>, run over
  \<open>reversedMessages\<close> without its first element. It stops without a flag when fewer than
  two messages are left, and with \<open>truncated = true\<close> at the first pair that does not fit.
\<close>

fun pairWalk :: "int \<Rightarrow> int \<Rightarrow> OpenRouterMessage list \<Rightarrow> selection \<Rightarrow> selection" where
  "pairWalk availableTokens maxMsgs (assistantMessage # userMessage # rest) (selected, usedTokens, trunc) =
     (let pairTokens = estimateMessageTokens assistantMessage + estimateMessageTokens userMessage in
      if usedTokens + pairTokens \<le> availableTokens \<and> int (length selected) + 2 \<le> maxMsgs
      then pairWalk availableTokens maxMsgs rest
             (userMessage # assistantMessage # selected, usedTokens + pairTokens, trunc)
      else (selected, usedTokens, True))"
| "pairWalk availableTokens maxMsgs rest st = st"

definition systemMessageOf :: "string \<Rightarrow> OpenRouterMessage" where
  "systemMessageOf systemPrompt = \<lparr>role = System, content = systemPrompt\<rparr>"

definition availableTokensOf :: "string \<Rightarrow> PartialTokenLimits \<Rightarrow> int" where
  "availableTokensOf systemPrompt limits =
     (let finalLimits = spreadLimits DEFAULT_LIMITS limits
      in maxTokens finalLimits - reserveTokens finalLimits
           - estimateMessageTokens (systemMessageOf systemPrompt))"

definition buildContext ::
  "OpenRouterMessage list \<Rightarrow> string \<Rightarrow> PartialTokenLimits \<Rightarrow> MessageContext" where
  "buildContext msgs systemPrompt limits =
     (let finalLimits = spreadLimits DEFAULT_LIMITS limits;
          systemMessage = systemMessageOf systemPrompt;
          systemTokens = estimateMessageTokens systemMessage;
          availableTokens = availableTokensOf systemPrompt limits
      in if msgs = [] then
           \<lparr>messages = [systemMessage], totalTokens = systemTokens, truncated = False\<rparr>
         else
           let reversedMessages = rev msgs;
               latestMessage = hd reversedMessages;
               (selected, usedTokens, trunc) =
                 pairWalk availableTokens (maxMessages finalLimits) (tl reversedMessages)
                   (includeLatest availableTokens latestMessage)
           in \<lparr>messages = systemMessage # selected,
               totalTokens = systemTokens + usedTokens,
               truncated = trunc\<rparr>)"

text \<open>
  The truncation rule in the words of the specification: cut at the last word boundary
  that lies before 80% of the character budget, otherwise cut hard at the budget, and append
  an ellipsis. It is compared with \<open>truncateText\<close> below.
\<close>

definition truncateBeforeEighty :: "string \<Rightarrow> int \<Rightarrow> string" where
  "truncateBeforeEighty text maxChars =
     (let window = take (nat maxChars) text;
          boundaries = filter (\<lambda>p. window ! p = CHR '' '' \<and> 5 * int p < 4 * maxChars)
                         [0..<length window]
      in if boundaries = [] then window @ ''...''
         else take (last boundaries) text @ ''...'')"

subsection \<open>Example inputs\<close>

definition ex4_limits :: PartialTokenLimits where
  "ex4_limits = \<lparr>pMaxTokens = Some 30, pMaxMessages = None, pReserveTokens = Some 0\<rparr>"

definition ex4_message :: OpenRouterMessage where
  "ex4_message = \<lparr>role = User, content = ''hello '' @ replicate 40 (CHR ''x'')\<rparr>"

definition ex4_spaced :: OpenRouterMessage where
  "ex4_spaced =
     \<lparr>role = User, content = replicate 36 (CHR ''x'') @ '' '' @ replicate 9 (CHR ''y'')\<rparr>"

definition ex5_user :: OpenRouterMessage where
  "ex5_user = \<lparr>role = User, content = ''hi''\<rparr>"
definition ex5_assistant :: OpenRouterMessage where
  "ex5_assistant = \<lparr>role = Assistant, content = ''ok''\<rparr>"
definition ex5_history :: "OpenRouterMessage list" where
  "ex5_history = ex5_assistant # concat (replicate 10 [ex5_user, ex5_assistant])"

definition ex10_history :: "OpenRouterMessage list" where
  "ex10_history = [ex5_user, ex5_assistant, ex5_user, ex5_assistant]"

section \<open>Documents and chunks (folder-rag-service.ts, indexeddb.ts)\<close>

text \<open>
  The records carry the fields that the modelled functions read or write; \<open>metadata\<close>
  is kept as the entries the code stores in it, and the \<open>Date\<close> stamps are left out.
\<close>

datatype docType = TypeText | TypePdf | TypeMd | TypeCode | TypeUrl | TypeJson

record FolderDocument =
  doc_id :: string
  doc_folderId :: int
  doc_userId :: string
  doc_name :: string
  doc_type :: docType
  doc_content :: string
  doc_size :: int

record FolderChunk =
  chunk_id :: string
  chunk_documentId :: string
  chunk_folderId :: int
  chunk_userId :: string
  chunk_content :: string
  startOffset :: int
  endOffset :: int
  chunkIndex :: nat
  tokenCount :: int
  documentName :: string
  documentType :: docType

text \<open>\<open>CHUNK_CONFIG\<close>.\<close>

definition CHUNK_maxTokens :: int where "CHUNK_maxTokens = 512"
definition CHUNK_overlap :: nat where "CHUNK_overlap = 50"
definition CHUNK_minChunkSize :: int where "CHUNK_minChunkSize = 100"

text \<open>
  \<open>String.prototype.trim\<close> removes white space at both ends; among the code units below
  256 these are tab, line feed, vertical tab, form feed, carriage return, space and the
  no-break space.
\<close>

definition isWhitespace :: "char \<Rightarrow> bool" where
  "isWhitespace c \<longleftrightarrow> of_char c \<in> {9, 10, 11, 12, 13, 32, 160 :: nat}"

definition trim :: "string \<Rightarrow> string" where
  "trim s = rev (dropWhile isWhitespace (rev (dropWhile isWhitespace s)))"

text \<open>\<open>xs.join(sep)\<close>.\<close>

fun joinWith :: "string \<Rightarrow> string list \<Rightarrow> string" where
  "joinWith sep [] = []"
| "joinWith sep [x] = x"
| "joinWith sep (x # y # ys) = x @ sep @ joinWith sep (y # ys)"

text \<open>
  \<open>text.split(/[...]+/)\<close> for a character class \<open>sep\<close>: the pieces between maximal
  runs of separator characters, with an empty piece before a leading run and after a
  trailing one. \<open>cur\<close> is the piece being read.
\<close>

function splitRuns :: "(char \<Rightarrow> bool) \<Rightarrow> string \<Rightarrow> string \<Rightarrow> string list" where
  "splitRuns sep cur [] = [cur]"
| "splitRuns sep cur (c # cs) =
     (if sep c then cur # splitRuns sep [] (dropWhile sep cs)
      else splitRuns sep (cur @ [c]) cs)"
  by pat_completeness auto
termination
  by (relation "measure (\<lambda>(sep, cur, s). length s)")
     (auto simp: length_dropWhile_le less_Suc_eq_le)

text \<open>The terminators of \<open>/[.!?]+/\<close>.\<close>

definition isTerminator :: "char \<Rightarrow> bool" where
  "isTerminator c \<longleftrightarrow> c = CHR ''.'' \<or> c = CHR ''!'' \<or> c = CHR ''?''"

definition splitIntoSentences :: "string \<Rightarrow> string list" where
  "splitIntoSentences text =
     filter (\<lambda>s. 0 < length (trim s)) (splitRuns isTerminator [] text)"

text \<open>
  The state of the loop in \<open>chunkDocument\<close>. \<open>crypto.randomUUID()\<close> is an id supply
  \<open>uuid\<close>, asked for the id of the chunk with a given index.
\<close>

record chunkState =
  currentChunk :: string
  curIndex :: nat
  curStart :: int
  chunks :: "FolderChunk list"

definition makeChunk :: "(nat \<Rightarrow> string) \<Rightarrow> FolderDocument \<Rightarrow> chunkState \<Rightarrow> FolderChunk" where
  "makeChunk uuid document st =
     \<lparr>chunk_id = uuid (curIndex st),
      chunk_documentId = doc_id document,
      chunk_folderId = doc_folderId document,
      chunk_userId = doc_userId document,
      chunk_content = trim (currentChunk st),
      startOffset = curStart st,
      endOffset = curStart st + int (length (currentChunk st)),
      chunkIndex = curIndex st,
      tokenCount = estimateTokens (currentChunk st),
      documentName = doc_name document,
      documentType = doc_type document\<rparr>"

text \<open>\<open>sentences.slice(-n)\<close>: the last \<open>n\<close> elements, all of them when there are fewer.\<close>

definition sliceLast :: "nat \<Rightarrow> 'a list \<Rightarrow> 'a list" where
  "sliceLast n xs = drop (length xs - n) xs"

text \<open>
  The body of the \<open>for\<close> loop over the sentences, and the loop as a fold.
  \<open>sentences\<close> is the whole array, which the body reads when it starts a new chunk.
\<close>

definition chunkStep ::
  "(nat \<Rightarrow> string) \<Rightarrow> FolderDocument \<Rightarrow> string list \<Rightarrow> chunkState \<Rightarrow> string \<Rightarrow> chunkState" where
  "chunkStep uuid document sentences st sentence =
     (let potentialChunk =
            currentChunk st @ (if currentChunk st \<noteq> [] then '' '' else []) @ sentence
      in if CHUNK_maxTokens < estimateTokens potentialChunk \<and> currentChunk st \<noteq> [] then
           let chunk = makeChunk uuid document st;
               overlapSentences = sliceLast CHUNK_overlap sentences
           in \<lparr>currentChunk = joinWith '' '' overlapSentences @ '' '' @ sentence,
               curIndex = Suc (curIndex st),
               curStart = endOffset chunk - int (length (joinWith '' '' overlapSentences)),
               chunks = chunks st @ [chunk]\<rparr>
         else st\<lparr>currentChunk := potentialChunk\<rparr>)"

definition chunkLoop ::
  "(nat \<Rightarrow> string) \<Rightarrow> FolderDocument \<Rightarrow> string list \<Rightarrow> chunkState \<Rightarrow> chunkState" where
  "chunkLoop uuid document sentences st = foldl (chunkStep uuid document sentences) st sentences"

definition chunkDocument :: "(nat \<Rightarrow> string) \<Rightarrow> FolderDocument \<Rightarrow> FolderChunk list" where
  "chunkDocument uuid document =
     (let sentences = splitIntoSentences (doc_content document);
          st = chunkLoop uuid document sentences
                 \<lparr>currentChunk = [], curIndex = 0, curStart = 0, chunks = []\<rparr>
      in if trim (currentChunk st) \<noteq> [] \<and> CHUNK_minChunkSize \<le> estimateTokens (currentChunk st)
         then chunks st @ [makeChunk uuid document st]
         else chunks st)"

text \<open>The characters of a text that are neither terminators nor white space, in order.\<close>

definition significant :: "string \<Rightarrow> string" where
  "significant s = filter (\<lambda>c. \<not> isTerminator c \<and> \<not> isWhitespace c) s"

subsection \<open>Example documents\<close>

definition exampleDoc :: "string \<Rightarrow> string \<Rightarrow> string \<Rightarrow> FolderDocument" where
  "exampleDoc ident name text =
     \<lparr>doc_id = ident, doc_folderId = 1, doc_userId = ''alice'', doc_name = name,
      doc_type = TypeText, doc_content = text, doc_size = int (length text)\<rparr>"

definition helloDoc :: FolderDocument where
  "helloDoc = exampleDoc ''d0'' ''hello.txt'' ''Hello world.''"

definition sentA :: string where "sentA = replicate 1500 (CHR ''a'')"
definition sentB :: string where "sentB = replicate 1500 (CHR ''b'')"
definition sentC :: string where "sentC = replicate 1500 (CHR ''c'')"

definition threeSentenceDoc :: FolderDocument where
  "threeSentenceDoc =
     exampleDoc ''d1'' ''long.txt'' (sentA @ ''.'' @ sentB @ ''.'' @ sentC @ ''.'')"

definition uuidOf :: "string \<Rightarrow> nat \<Rightarrow> string" where
  "uuidOf pre n = pre @ replicate n (CHR ''+'')"

definition twoSentenceDoc :: FolderDocument where
  "twoSentenceDoc =
     exampleDoc ''d2'' ''short.txt''
       (replicate 400 (CHR ''a'') @ ''. '' @ replicate 400 (CHR ''b'') @ ''.'')"


section \<open>Numbers of the similarity search\<close>

text \<open>
  The components of an embedding vector and the similarity scores are JavaScript numbers.
  They are modelled as real numbers with exact arithmetic (rounding is not part of the model),
  extended by the values that the division produces for a zero denominator and by \<open>NaN\<close>.
\<close>

datatype jsnum = Num real | PosInf | NegInf | NaN

text \<open>
  \<open>a.reduce((sum, val, i) => sum + val * b[i], 0)\<close>. Past the end of \<open>b\<close> the
  element \<open>b[i]\<close> is \<open>undefined\<close> and the sum becomes \<open>NaN\<close>.
\<close>

definition dotProduct :: "real list \<Rightarrow> real list \<Rightarrow> jsnum" where
  "dotProduct a b =
     (if length b < length a then NaN
      else Num (sum_list (map (\<lambda>(val, bi). val * bi) (zip a b))))"

definition magnitude :: "real list \<Rightarrow> real" where
  "magnitude a = sqrt (sum_list (map (\<lambda>val. val * val) a))"

text \<open>Division of a number by a finite denominator, as \<open>/\<close> computes it.\<close>

definition jsDivide :: "jsnum \<Rightarrow> real \<Rightarrow> jsnum" where
  "jsDivide x d =
     (case x of
        Num n \<Rightarrow>
          if d = 0 then (if n = 0 then NaN else if 0 < n then PosInf else NegInf)
          else Num (n / d)
      | PosInf \<Rightarrow> (if d < 0 then NegInf else PosInf)
      | NegInf \<Rightarrow> (if d < 0 then PosInf else NegInf)
      | NaN \<Rightarrow> NaN)"

definition cosineSimilarity :: "real list \<Rightarrow> real list \<Rightarrow> jsnum" where
  "cosineSimilarity a b =
     (let dotProduct' = dotProduct a b;
          magnitudeA = magnitude a;
          magnitudeB = magnitude b
      in jsDivide dotProduct' (magnitudeA * magnitudeB))"

text \<open>Subtraction, and the test \<open>x > t\<close> against a finite number.\<close>

fun jsMinus :: "jsnum \<Rightarrow> jsnum \<Rightarrow> jsnum" where
  "jsMinus (Num x) (Num y) = Num (x - y)"
| "jsMinus NaN _ = NaN"
| "jsMinus _ NaN = NaN"
| "jsMinus PosInf PosInf = NaN"
| "jsMinus NegInf NegInf = NaN"
| "jsMinus PosInf _ = PosInf"
| "jsMinus NegInf _ = NegInf"
| "jsMinus (Num x) PosInf = NegInf"
| "jsMinus (Num x) NegInf = PosInf"

fun jsGreater :: "jsnum \<Rightarrow> real \<Rightarrow> bool" where
  "jsGreater (Num x) t = (t < x)"
| "jsGreater PosInf t = True"
| "jsGreater NegInf t = False"
| "jsGreater NaN t = False"

text \<open>
  \<open>Array.prototype.sort\<close> with a comparator \<open>cmp\<close>, as a stable insertion sort: an
  element moves behind another one only when \<open>cmp\<close> of the two is positive. For a
  consistent comparator this is the order every stable sort produces; with \<open>NaN\<close> scores the
  comparator is not consistent, ECMAScript leaves the order to the implementation, and the
  model fixes it to the insertion order.
\<close>

fun insertBy :: "('a \<Rightarrow> 'a \<Rightarrow> jsnum) \<Rightarrow> 'a \<Rightarrow> 'a list \<Rightarrow> 'a list" where
  "insertBy cmp x [] = [x]"
| "insertBy cmp x (y # ys) =
     (if jsGreater (cmp x y) 0 then y # insertBy cmp x ys else x # y # ys)"

definition sortBy :: "('a \<Rightarrow> 'a \<Rightarrow> jsnum) \<Rightarrow> 'a list \<Rightarrow> 'a list" where
  "sortBy cmp xs = foldr (insertBy cmp) xs []"

text \<open>\<open>xs.slice(0, end)\<close> for an integer \<open>end\<close>: a negative \<open>end\<close> counts from the back.\<close>

definition sliceTo :: "'a list \<Rightarrow> int \<Rightarrow> 'a list" where
  "sliceTo xs e = (if e < 0 then take (length xs - nat (- e)) xs else take (nat e) xs)"

section \<open>The RAG service store (folder-rag-service.ts, indexeddb.ts)\<close>

record FolderEmbedding =
  emb_id :: string
  emb_folderId :: int
  emb_userId :: string
  vector :: "real list"
  dimensions :: nat
  model :: string

datatype nodeType = NodeConcept | NodeEntity | NodeDocument | NodeTopic

datatype edgeType = RelatesTo | Contains | References | DerivedFrom

text \<open>The \<open>metadata\<close> of a node, as \<open>updateKnowledgeGraph\<close> fills it.\<close>

datatype nodeMeta = DocumentMeta docType int | ConceptMeta nat

text \<open>The random \<open>position\<close> of a node is left out.\<close>

record KnowledgeNode =
  node_id :: string
  node_type :: nodeType
  node_label :: string
  node_content :: string
  documentIds :: "string list"
  chunkIds :: "string list"
  node_metadata :: nodeMeta

record KnowledgeEdge =
  edge_id :: string
  sourceId :: string
  targetId :: string
  edge_type :: edgeType
  weight :: real

record FolderKnowledgeGraph =
  graph_id :: string
  graph_folderId :: int
  graph_userId :: string
  nodes :: "KnowledgeNode list"
  edges :: "KnowledgeEdge list"
  documentCount :: nat

text \<open>
  A folder id inside a template literal: the decimal digits of an integer, with a minus
  sign for a negative one (folder ids are database serials, far below the magnitude at which
  JavaScript switches to exponent notation).
\<close>

definition digitChar :: "nat \<Rightarrow> char" where
  "digitChar n = char_of (48 + n)"

fun digitsOf :: "nat \<Rightarrow> string" where
  "digitsOf n = (if n < 10 then [digitChar n] else digitsOf (n div 10) @ [digitChar (n mod 10)])"

declare digitsOf.simps [simp del]

definition showInt :: "int \<Rightarrow> string" where
  "showInt i = (if i < 0 then CHR ''-'' # digitsOf (nat (- i)) else digitsOf (nat i))"

text \<open>
  The keys of \<open>memoryStore\<close>: \<open>`chunks-${folderId}-${userId}`\<close> and its siblings.
\<close>

definition memoryKey :: "string \<Rightarrow> int \<Rightarrow> string \<Rightarrow> string" where
  "memoryKey kind folderId userId = kind @ ''-'' @ showInt folderId @ ''-'' @ userId"

text \<open>What \<open>memoryStore: Map<string, unknown>\<close> holds under a key.\<close>

datatype storeValue =
    StoredDocuments "FolderDocument list"
  | StoredChunks "FolderChunk list"
  | StoredEmbeddings "FolderEmbedding list"
  | StoredGraph FolderKnowledgeGraph

datatype storageError = ConstraintError | DatabaseError

text \<open>
  The state of a \<open>FolderRAGService\<close>: the flag set by the constructor, the in-memory map,
  and the four IndexedDB object stores, each a list of records in the order of their primary
  key \<open>id\<close>. \<open>dbOpens\<close> says whether \<open>getDB()\<close> resolves.
\<close>

record ragService =
  fallbackToMemory :: bool
  memoryStore :: "string \<rightharpoonup> storeValue"
  dbOpens :: bool
  folderDocuments :: "FolderDocument list"
  folderChunks :: "FolderChunk list"
  folderEmbeddings :: "FolderEmbedding list"
  folderKnowledgeGraphs :: "FolderKnowledgeGraph list"

definition newService :: "bool \<Rightarrow> bool \<Rightarrow> ragService" where
  "newService indexedDBAvailable opens =
     \<lparr>fallbackToMemory = \<not> indexedDBAvailable, memoryStore = Map.empty, dbOpens = opens,
      folderDocuments = [], folderChunks = [], folderEmbeddings = [],
      folderKnowledgeGraphs = []\<rparr>"

text \<open>
  \<open>db.add\<close> rejects a key that is present, \<open>db.put\<close> replaces it, \<open>db.delete\<close> removes
  it; \<open>getAllFromIndex\<close> returns the records whose index key matches, in key order.
\<close>

definition dbAdd :: "('r \<Rightarrow> string) \<Rightarrow> 'r \<Rightarrow> 'r list \<Rightarrow> storageError + 'r list" where
  "dbAdd key r store =
     (if key r \<in> key ` set store then Inl ConstraintError else Inr (insort_key key r store))"

definition dbPut :: "('r \<Rightarrow> string) \<Rightarrow> 'r \<Rightarrow> 'r list \<Rightarrow> 'r list" where
  "dbPut key r store = insort_key key r (filter (\<lambda>x. key x \<noteq> key r) store)"

definition dbDelete :: "('r \<Rightarrow> string) \<Rightarrow> string \<Rightarrow> 'r list \<Rightarrow> 'r list" where
  "dbDelete key k store = filter (\<lambda>x. key x \<noteq> k) store"

definition getAllFromIndex :: "('r \<Rightarrow> bool) \<Rightarrow> 'r list \<Rightarrow> 'r list" where
  "getAllFromIndex matches store = filter matches store"

subsection \<open>Storage operations\<close>

text \<open>
  The reads in memory mode are \<open>(this.memoryStore.get(key) as T[]) || []\<close>; the cast is
  not checked, but keys of different kinds never coincide, so a key of one kind holds a
  value of that kind or nothing.
\<close>

definition memoryDocuments :: "ragService \<Rightarrow> string \<Rightarrow> FolderDocument list" where
  "memoryDocuments st key =
     (case memoryStore st key of Some (StoredDocuments ds) \<Rightarrow> ds | _ \<Rightarrow> [])"

definition memoryChunks :: "ragService \<Rightarrow> string \<Rightarrow> FolderChunk list" where
  "memoryChunks st key =
     (case memoryStore st key of Some (StoredChunks cs) \<Rightarrow> cs | _ \<Rightarrow> [])"

definition memoryEmbeddings :: "ragService \<Rightarrow> string \<Rightarrow> FolderEmbedding list" where
  "memoryEmbeddings st key =
     (case memoryStore st key of Some (StoredEmbeddings es) \<Rightarrow> es | _ \<Rightarrow> [])"

definition storeDocument :: "ragService \<Rightarrow> FolderDocument \<Rightarrow> storageError + ragService" where
  "storeDocument st document =
     (if fallbackToMemory st then
        (let key = memoryKey ''docs'' (doc_folderId document) (doc_userId document);
             existing = memoryDocuments st key
         in Inr (st\<lparr>memoryStore := (memoryStore st)(key \<mapsto> StoredDocuments (existing @ [document]))\<rparr>))
      else if \<not> dbOpens st then Inl DatabaseError
      else (case dbAdd doc_id document (folderDocuments st) of
              Inl e \<Rightarrow> Inl e
            | Inr store \<Rightarrow> Inr (st\<lparr>folderDocuments := store\<rparr>)))"

definition storeChunk :: "ragService \<Rightarrow> FolderChunk \<Rightarrow> storageError + ragService" where
  "storeChunk st chunk =
     (if fallbackToMemory st then
        (let key = memoryKey ''chunks'' (chunk_folderId chunk) (chunk_userId chunk);
             existing = memoryChunks st key
         in Inr (st\<lparr>memoryStore := (memoryStore st)(key \<mapsto> StoredChunks (existing @ [chunk]))\<rparr>))
      else if \<not> dbOpens st then Inl DatabaseError
      else (case dbAdd chunk_id chunk (folderChunks st) of
              Inl e \<Rightarrow> Inl e
            | Inr store \<Rightarrow> Inr (st\<lparr>folderChunks := store\<rparr>)))"

definition storeEmbedding :: "ragService \<Rightarrow> FolderEmbedding \<Rightarrow> storageError + ragService" where
  "storeEmbedding st embedding =
     (if fallbackToMemory st then
        (let key = memoryKey ''embeddings'' (emb_folderId embedding) (emb_userId embedding);
             existing = memoryEmbeddings st key
         in Inr (st\<lparr>memoryStore := (memoryStore st)(key \<mapsto> StoredEmbeddings (existing @ [embedding]))\<rparr>))
      else if \<not> dbOpens st then Inl DatabaseError
      else (case dbAdd emb_id embedding (folderEmbeddings st) of
              Inl e \<Rightarrow> Inl e
            | Inr store \<Rightarrow> Inr (st\<lparr>folderEmbeddings := store\<rparr>)))"

definition storeKnowledgeGraph :: "ragService \<Rightarrow> FolderKnowledgeGraph \<Rightarrow> storageError + ragService" where
  "storeKnowledgeGraph st graph =
     (if fallbackToMemory st then
        (let key = memoryKey ''graph'' (graph_folderId graph) (graph_userId graph)
         in Inr (st\<lparr>memoryStore := (memoryStore st)(key \<mapsto> StoredGraph graph)\<rparr>))
      else if \<not> dbOpens st then Inl DatabaseError
      else Inr (st\<lparr>folderKnowledgeGraphs := dbPut graph_id graph (folderKnowledgeGraphs st)\<rparr>))"

text \<open>The reads catch a failing database and return nothing.\<close>

definition getDocuments :: "ragService \<Rightarrow> int \<Rightarrow> string \<Rightarrow> FolderDocument list" where
  "getDocuments st folderId userId =
     (if fallbackToMemory st then memoryDocuments st (memoryKey ''docs'' folderId userId)
      else if \<not> dbOpens st then []
      else getAllFromIndex (\<lambda>d. doc_folderId d = folderId \<and> doc_userId d = userId)
             (folderDocuments st))"

definition getChunks :: "ragService \<Rightarrow> int \<Rightarrow> string \<Rightarrow> FolderChunk list" where
  "getChunks st folderId userId =
     (if fallbackToMemory st then memoryChunks st (memoryKey ''chunks'' folderId userId)
      else if \<not> dbOpens st then []
      else getAllFromIndex (\<lambda>c. chunk_folderId c = folderId \<and> chunk_userId c = userId)
             (folderChunks st))"

definition getEmbeddings :: "ragService \<Rightarrow> int \<Rightarrow> string \<Rightarrow> FolderEmbedding list" where
  "getEmbeddings st folderId userId =
     (if fallbackToMemory st then memoryEmbeddings st (memoryKey ''embeddings'' folderId userId)
      else if \<not> dbOpens st then []
      else getAllFromIndex (\<lambda>e. emb_folderId e = folderId \<and> emb_userId e = userId)
             (folderEmbeddings st))"

definition getKnowledgeGraph :: "ragService \<Rightarrow> int \<Rightarrow> string \<Rightarrow> FolderKnowledgeGraph option" where
  "getKnowledgeGraph st folderId userId =
     (if fallbackToMemory st then
        (case memoryStore st (memoryKey ''graph'' folderId userId) of
           Some (StoredGraph g) \<Rightarrow> Some g
         | _ \<Rightarrow> None)
      else if \<not> dbOpens st then None
      else (case getAllFromIndex (\<lambda>g. graph_folderId g = folderId \<and> graph_userId g = userId)
                   (folderKnowledgeGraphs st) of
              [] \<Rightarrow> None
            | g # _ \<Rightarrow> Some g))"

text \<open>
  The cleanup operations. In memory mode the three removals by document return at once;
  with IndexedDB they catch every error.
\<close>

definition removeDocument :: "ragService \<Rightarrow> string \<Rightarrow> ragService" where
  "removeDocument st documentId =
     (if fallbackToMemory st \<or> \<not> dbOpens st then st
      else st\<lparr>folderDocuments := dbDelete doc_id documentId (folderDocuments st)\<rparr>)"

definition removeChunksByDocument :: "ragService \<Rightarrow> string \<Rightarrow> ragService" where
  "removeChunksByDocument st documentId =
     (if fallbackToMemory st \<or> \<not> dbOpens st then st
      else
        let chunks' = getAllFromIndex (\<lambda>c. chunk_documentId c = documentId) (folderChunks st)
        in st\<lparr>folderChunks := foldl (\<lambda>store chunk. dbDelete chunk_id (chunk_id chunk) store)
                                  (folderChunks st) chunks'\<rparr>)"

definition removeEmbeddingsByDocument :: "ragService \<Rightarrow> string \<Rightarrow> ragService" where
  "removeEmbeddingsByDocument st documentId =
     (if fallbackToMemory st \<or> \<not> dbOpens st then st
      else
        let chunks' = getAllFromIndex (\<lambda>c. chunk_documentId c = documentId) (folderChunks st)
        in st\<lparr>folderEmbeddings := foldl (\<lambda>store chunk. dbDelete emb_id (chunk_id chunk) store)
                                      (folderEmbeddings st) chunks'\<rparr>)"

definition removeKnowledgeGraphs :: "ragService \<Rightarrow> int \<Rightarrow> string \<Rightarrow> ragService" where
  "removeKnowledgeGraphs st folderId userId =
     (let graphs = getAllFromIndex (\<lambda>g. graph_folderId g = folderId \<and> graph_userId g = userId)
                     (folderKnowledgeGraphs st)
      in st\<lparr>folderKnowledgeGraphs := foldl (\<lambda>store graph. dbDelete graph_id (graph_id graph) store)
                                          (folderKnowledgeGraphs st) graphs\<rparr>)"

text \<open>
  \<open>deleteDocument\<close> starts the three removals by document together with
  \<open>Promise.all\<close>; the model runs them one after the other, the removal of the embeddings
  first, since it reads the chunks of the document that the removal of the chunks deletes.
  \<open>cleanupFolder\<close> with IndexedDB deletes every document of the folder in this way and then
  the graphs of the folder; in memory mode it deletes the four keys of the scope.
\<close>

definition deleteDocument :: "ragService \<Rightarrow> string \<Rightarrow> ragService" where
  "deleteDocument st documentId =
     removeDocument (removeChunksByDocument (removeEmbeddingsByDocument st documentId) documentId)
       documentId"

definition cleanupFolder :: "ragService \<Rightarrow> int \<Rightarrow> string \<Rightarrow> ragService" where
  "cleanupFolder st folderId userId =
     (if fallbackToMemory st then
        st\<lparr>memoryStore :=
             foldl (\<lambda>m pattern. m(pattern := None)) (memoryStore st)
               [memoryKey ''docs'' folderId userId, memoryKey ''chunks'' folderId userId,
                memoryKey ''embeddings'' folderId userId, memoryKey ''graph'' folderId userId]\<rparr>
      else if \<not> dbOpens st then st
      else
        let documents = getAllFromIndex (\<lambda>d. doc_folderId d = folderId \<and> doc_userId d = userId)
                          (folderDocuments st);
            st' = foldl (\<lambda>s document. deleteDocument s (doc_id document)) st documents
        in removeKnowledgeGraphs st' folderId userId)"

subsection \<open>Semantic search\<close>

text \<open>
  \<open>generateEmbedding\<close> draws a random unit vector; the model takes the embedding provider
  as a parameter \<open>generateEmbedding\<close>. The entries of \<open>similarities\<close> are pairs of a chunk id and a
  score, the results pairs of a chunk and a score.
\<close>

definition searchSimilarContent ::
  "(string \<Rightarrow> real list) \<Rightarrow> ragService \<Rightarrow> int \<Rightarrow> string \<Rightarrow> string \<Rightarrow> int
     \<Rightarrow> (FolderChunk \<times> jsnum) list" where
  "searchSimilarContent generateEmbedding st folderId userId query limit =
     (let queryEmbedding = generateEmbedding query;
          embeddings = getEmbeddings st folderId userId;
          chunks' = getChunks st folderId userId;
          similarities =
            map (\<lambda>embedding. (emb_id embedding, cosineSimilarity queryEmbedding (vector embedding)))
              embeddings;
          sorted' = sortBy (\<lambda>a b. jsMinus (snd b) (snd a)) similarities;
          topResults = sliceTo sorted' limit
      in List.map_filter
           (\<lambda>result. case find (\<lambda>c. chunk_id c = fst result) chunks' of
                        Some chunk \<Rightarrow> Some (chunk, snd result)
                      | None \<Rightarrow> None)
           topResults)"

text \<open>
  \<open>buildContextForQuery\<close>: the loop over the ranked chunks with its \<open>break\<close>, then the
  function. The score is compared with the literal \<open>0.7\<close>.
\<close>

fun contextLoop :: "int \<Rightarrow> (FolderChunk \<times> jsnum) list \<Rightarrow> string \<times> int \<Rightarrow> string" where
  "contextLoop maxTokens' [] (context, tokensSoFar) = context"
| "contextLoop maxTokens' ((chunk, similarity) # rest) (context, tokensSoFar) =
     (let chunkTokens = tokenCount chunk in
      if maxTokens' < tokensSoFar + chunkTokens then context
      else if jsGreater similarity (7 / 10) then
        contextLoop maxTokens' rest
          (context @ ''\<newline>--- '' @ documentName chunk @ '' ---\<newline>'' @ chunk_content chunk @ ''\<newline>'',
           tokensSoFar + chunkTokens)
      else contextLoop maxTokens' rest (context, tokensSoFar))"

definition buildContextForQuery ::
  "(string \<Rightarrow> real list) \<Rightarrow> ragService \<Rightarrow> int \<Rightarrow> string \<Rightarrow> string \<Rightarrow> int \<Rightarrow> string" where
  "buildContextForQuery generateEmbedding st folderId userId query maxTokens' =
     (let relevantChunks = searchSimilarContent generateEmbedding st folderId userId query 10
      in trim (contextLoop maxTokens' relevantChunks ([], 0)))"

subsection \<open>Knowledge graph\<close>

text \<open>
  \<open>extractConcepts\<close>: lower case, split at runs of non-word characters, keep the words
  longer than four characters that are not stop words, drop repetitions (a \<open>Set\<close> keeps the
  first occurrence), take five.
\<close>

definition toLowerCase :: "char \<Rightarrow> char" where
  "toLowerCase c =
     (let n = (of_char c :: nat)
      in if (65 \<le> n \<and> n \<le> 90) \<or> (192 \<le> n \<and> n \<le> 222 \<and> n \<noteq> 215) then char_of (n + 32) else c)"

definition isWordChar :: "char \<Rightarrow> bool" where
  "isWordChar c =
     (let n = (of_char c :: nat)
      in (48 \<le> n \<and> n \<le> 57) \<or> (65 \<le> n \<and> n \<le> 90) \<or> n = 95 \<or> (97 \<le> n \<and> n \<le> 122))"

definition stopWords :: "string list" where
  "stopWords = [''the'', ''and'', ''this'', ''that'', ''with'', ''have'', ''will'', ''from'',
                ''they'', ''been'', ''have'', ''their'']"

definition extractConcepts :: "string \<Rightarrow> string list" where
  "extractConcepts text =
     (let words = splitRuns (\<lambda>c. \<not> isWordChar c) [] (map toLowerCase text);
          concepts = filter (\<lambda>word. 4 < length word \<and> word \<notin> set stopWords) words
      in take 5 (rev (remdups (rev concepts))))"

definition documentNodeOf :: "FolderDocument \<Rightarrow> FolderChunk list \<Rightarrow> KnowledgeNode" where
  "documentNodeOf document chunks' =
     \<lparr>node_id = doc_id document,
      node_type = NodeDocument,
      node_label = doc_name document,
      node_content = substring (doc_content document) 0 200 @ ''...'',
      documentIds = [doc_id document],
      chunkIds = map chunk_id chunks',
      node_metadata = DocumentMeta (doc_type document) (doc_size document)\<rparr>"

definition conceptNodeOf :: "FolderDocument \<Rightarrow> FolderChunk \<Rightarrow> nat \<Rightarrow> string \<Rightarrow> KnowledgeNode" where
  "conceptNodeOf document chunk index concept =
     \<lparr>node_id = chunk_id chunk @ ''-concept-'' @ concept,
      node_type = NodeConcept,
      node_label = concept,
      node_content = concept,
      documentIds = [doc_id document],
      chunkIds = [chunk_id chunk],
      node_metadata = ConceptMeta index\<rparr>"

definition containsEdgeOf :: "FolderDocument \<Rightarrow> KnowledgeNode \<Rightarrow> KnowledgeEdge" where
  "containsEdgeOf document conceptNode =
     \<lparr>edge_id = doc_id document @ ''-contains-'' @ node_id conceptNode,
      sourceId = doc_id document,
      targetId = node_id conceptNode,
      edge_type = Contains,
      weight = 8 / 10\<rparr>"

definition conceptNodesOf :: "FolderDocument \<Rightarrow> FolderChunk list \<Rightarrow> KnowledgeNode list" where
  "conceptNodesOf document chunks' =
     concat (map (\<lambda>(chunk, index). map (conceptNodeOf document chunk index)
                                     (extractConcepts (chunk_content chunk)))
               (zip chunks' [0..<length chunks']))"

text \<open>The graph object that \<open>updateKnowledgeGraph\<close> builds from one document and stores.\<close>

definition graphOf :: "FolderDocument \<Rightarrow> FolderChunk list \<Rightarrow> FolderKnowledgeGraph" where
  "graphOf document chunks' =
     \<lparr>graph_id = showInt (doc_folderId document) @ ''-graph'',
      graph_folderId = doc_folderId document,
      graph_userId = doc_userId document,
      nodes = documentNodeOf document chunks' # conceptNodesOf document chunks',
      edges = map (containsEdgeOf document) (conceptNodesOf document chunks'),
      documentCount = 1\<rparr>"

definition updateKnowledgeGraph ::
  "ragService \<Rightarrow> FolderDocument \<Rightarrow> FolderChunk list \<Rightarrow> storageError + ragService" where
  "updateKnowledgeGraph st document chunks' = storeKnowledgeGraph st (graphOf document chunks')"

subsection \<open>Ingestion pipeline\<close>

text \<open>
  \<open>processDocumentAsync\<close>: chunk the document, store the chunks, embed and store an
  embedding per chunk, update the graph. An error of a chunk store or of the graph update is
  caught and ends the pipeline, keeping what was stored; an error of one embedding is caught
  per chunk.
\<close>

fun storeChunksLoop ::
  "ragService \<Rightarrow> FolderChunk list \<Rightarrow> (storageError \<times> ragService) + ragService" where
  "storeChunksLoop st [] = Inr st"
| "storeChunksLoop st (chunk # rest) =
     (case storeChunk st chunk of
        Inl e \<Rightarrow> Inl (e, st)
      | Inr st' \<Rightarrow> storeChunksLoop st' rest)"

definition embeddingOf :: "(string \<Rightarrow> real list) \<Rightarrow> FolderChunk \<Rightarrow> FolderEmbedding" where
  "embeddingOf generateEmbedding chunk =
     (let embedding = generateEmbedding (chunk_content chunk)
      in \<lparr>emb_id = chunk_id chunk,
          emb_folderId = chunk_folderId chunk,
          emb_userId = chunk_userId chunk,
          vector = embedding,
          dimensions = length embedding,
          model = ''local-sentence-transformer''\<rparr>)"

definition generateEmbeddingsForChunks ::
  "(string \<Rightarrow> real list) \<Rightarrow> ragService \<Rightarrow> FolderChunk list \<Rightarrow> ragService" where
  "generateEmbeddingsForChunks generateEmbedding st chunks' =
     foldl (\<lambda>s chunk. case storeEmbedding s (embeddingOf generateEmbedding chunk) of
                        Inl e \<Rightarrow> s
                      | Inr s' \<Rightarrow> s')
       st chunks'"

definition processDocumentAsync ::
  "(nat \<Rightarrow> string) \<Rightarrow> (string \<Rightarrow> real list) \<Rightarrow> ragService \<Rightarrow> FolderDocument \<Rightarrow> ragService" where
  "processDocumentAsync uuid generateEmbedding st document =
     (let chunks' = chunkDocument uuid document in
      case storeChunksLoop st chunks' of
        Inl (e, s) \<Rightarrow> s
      | Inr s1 \<Rightarrow>
          (let s2 = generateEmbeddingsForChunks generateEmbedding s1 chunks' in
           case updateKnowledgeGraph s2 document chunks' of
             Inl e \<Rightarrow> s2
           | Inr s3 \<Rightarrow> s3))"

text \<open>
  The states a service can be in: those of a new service, and those produced by its
  storage and cleanup operations (\<open>storeKnowledgeGraph\<close> is only called by
  \<open>updateKnowledgeGraph\<close>).
\<close>

inductive reachable :: "ragService \<Rightarrow> bool" where
  new: "reachable (newService indexedDBAvailable opens)"
| storeDocument: "reachable st \<Longrightarrow> storeDocument st document = Inr st' \<Longrightarrow> reachable st'"
| storeChunk: "reachable st \<Longrightarrow> storeChunk st chunk = Inr st' \<Longrightarrow> reachable st'"
| storeEmbedding: "reachable st \<Longrightarrow> storeEmbedding st embedding = Inr st' \<Longrightarrow> reachable st'"
| updateKnowledgeGraph:
    "reachable st \<Longrightarrow> updateKnowledgeGraph st document chunks' = Inr st' \<Longrightarrow> reachable st'"
| deleteDocument: "reachable st \<Longrightarrow> reachable (deleteDocument st documentId)"
| cleanupFolder: "reachable st \<Longrightarrow> reachable (cleanupFolder st folderId userId)"


section \<open>Folder context manager (src/lib/folder-context-manager.ts)\<close>

record FolderContextConfig =
  includeRAGData :: bool
  maxRAGTokens :: int
  ragSimilarityThreshold :: real
  preserveConversationContext :: bool
  maxConversationTokens :: int

text \<open>\<open>Partial<FolderContextConfig>\<close>.\<close>

record PartialFolderContextConfig =
  pIncludeRAGData :: "bool option"
  pMaxRAGTokens :: "int option"
  pRagSimilarityThreshold :: "real option"
  pPreserveConversationContext :: "bool option"
  pMaxConversationTokens :: "int option"

definition DEFAULT_FOLDER_CONFIG :: FolderContextConfig where
  "DEFAULT_FOLDER_CONFIG =
     \<lparr>includeRAGData = True, maxRAGTokens = 2000, ragSimilarityThreshold = 7 / 10,
      preserveConversationContext = True, maxConversationTokens = 4000\<rparr>"

definition spreadConfig :: "FolderContextConfig \<Rightarrow> PartialFolderContextConfig \<Rightarrow> FolderContextConfig" where
  "spreadConfig c p =
     \<lparr>includeRAGData = (case pIncludeRAGData p of Some v \<Rightarrow> v | None \<Rightarrow> includeRAGData c),
      maxRAGTokens = (case pMaxRAGTokens p of Some v \<Rightarrow> v | None \<Rightarrow> maxRAGTokens c),
      ragSimilarityThreshold =
        (case pRagSimilarityThreshold p of Some v \<Rightarrow> v | None \<Rightarrow> ragSimilarityThreshold c),
      preserveConversationContext =
        (case pPreserveConversationContext p of Some v \<Rightarrow> v | None \<Rightarrow> preserveConversationContext c),
      maxConversationTokens =
        (case pMaxConversationTokens p of Some v \<Rightarrow> v | None \<Rightarrow> maxConversationTokens c)\<rparr>"

text \<open>The field \<open>folderConfigs\<close> of the manager, and its two accessors.\<close>

type_synonym folderConfigs = "int \<rightharpoonup> FolderContextConfig"

definition getFolderConfig :: "folderConfigs \<Rightarrow> int \<Rightarrow> FolderContextConfig" where
  "getFolderConfig configs folderId =
     (case configs folderId of Some c \<Rightarrow> c | None \<Rightarrow> DEFAULT_FOLDER_CONFIG)"

definition setFolderConfig :: "folderConfigs \<Rightarrow> int \<Rightarrow> PartialFolderContextConfig \<Rightarrow> folderConfigs" where
  "setFolderConfig configs folderId config =
     (let currentConfig = getFolderConfig configs folderId
      in configs(folderId \<mapsto> spreadConfig currentConfig config))"

text \<open>
  \<open>buildRAGContext\<close>. It receives \<open>similarityThreshold\<close> and passes the other four
  arguments on to \<open>buildContextForQuery\<close>.
\<close>

definition buildRAGContext ::
  "(string \<Rightarrow> real list) \<Rightarrow> ragService \<Rightarrow> int \<Rightarrow> string \<Rightarrow> string \<Rightarrow> int \<Rightarrow> real \<Rightarrow> string" where
  "buildRAGContext generateEmbedding st folderId userId query maxTokens' similarityThreshold =
     (let ragContent = buildContextForQuery generateEmbedding st folderId userId query maxTokens'
      in if ragContent = [] then []
         else ''\<newline>--- FOLDER CONTEXT (Folder ID: '' @ showInt folderId @ '') ---\<newline>''
              @ ragContent @ ''\<newline>--- END FOLDER CONTEXT ---\<newline>'')"

definition buildFolderSystemPrompt :: "string \<Rightarrow> int \<Rightarrow> string \<Rightarrow> string" where
  "buildFolderSystemPrompt basePrompt folderId ragContext =
     basePrompt
     @ ''\<newline>\<newline>## FOLDER CONTEXT ISOLATION\<newline>''
     @ ''You are working within a specific folder context (ID: '' @ showInt folderId @ ''). ''
     @ ''IMPORTANT: Only use information from the provided folder context below. ''
     @ ''Do not reference or contaminate this conversation with information from other folders or external sources.''
     @ (if trim ragContext \<noteq> [] then
          ''\<newline>\<newline>## AVAILABLE FOLDER RESOURCES\<newline>''
          @ ''The following resources are available in this folder for reference:''
          @ ragContext
          @ ''\<newline>\<newline>When answering questions, prioritize information from these folder resources. ''
          @ ''If the answer isn't in the provided resources, clearly state that the information ''
          @ ''is not available in the current folder context.''
        else
          ''\<newline>\<newline>No specific resources are available in this folder context. ''
          @ ''Provide general assistance while noting that no folder-specific resources are loaded.'')
     @ ''\<newline>\<newline>## STRICT ISOLATION REQUIREMENT\<newline>''
     @ ''Maintain complete separation between this folder's context and any other conversations. ''
     @ ''Each folder is an independent knowledge space with no cross-contamination.''"

definition applyFolderLimits :: "PartialTokenLimits \<Rightarrow> FolderContextConfig \<Rightarrow> PartialTokenLimits" where
  "applyFolderLimits baseLimits config =
     baseLimits\<lparr>pReserveTokens :=
       Some ((case pReserveTokens baseLimits of Some v \<Rightarrow> v | None \<Rightarrow> 0)
             + (if includeRAGData config then maxRAGTokens config else 0))\<rparr>"

definition buildFolderContext ::
  "folderConfigs \<Rightarrow> (string \<Rightarrow> real list) \<Rightarrow> ragService \<Rightarrow> int \<Rightarrow> string
     \<Rightarrow> OpenRouterMessage list \<Rightarrow> string \<Rightarrow> string \<Rightarrow> PartialTokenLimits \<Rightarrow> MessageContext" where
  "buildFolderContext configs generateEmbedding st folderId userId msgs userQuery baseSystemPrompt limits =
     (let config = getFolderConfig configs folderId;
          ragContext =
            (if includeRAGData config then
               buildRAGContext generateEmbedding st folderId userId userQuery
                 (maxRAGTokens config) (ragSimilarityThreshold config)
             else []);
          enhancedSystemPrompt = buildFolderSystemPrompt baseSystemPrompt folderId ragContext;
          folderLimits = applyFolderLimits limits config
      in buildContext msgs enhancedSystemPrompt folderLimits)"


subsection \<open>Example store\<close>

text \<open>
  Two scopes with disjoint content: folder 1 of alice with two chunks, folder 2 of bob
  with one. The embedding provider of the example maps each text to a fixed unit vector;
  against the query the chunks of alice score 1 and 0.8.
\<close>

definition exampleChunk :: "string \<Rightarrow> int \<Rightarrow> string \<Rightarrow> string \<Rightarrow> string \<Rightarrow> FolderChunk" where
  "exampleChunk ident folderId userId name text =
     \<lparr>chunk_id = ident, chunk_documentId = ''doc-'' @ name, chunk_folderId = folderId,
      chunk_userId = userId, chunk_content = text, startOffset = 0,
      endOffset = int (length text), chunkIndex = 0, tokenCount = estimateTokens text,
      documentName = name, documentType = TypeText\<rparr>"

definition chunkInvoice :: FolderChunk where
  "chunkInvoice = exampleChunk ''c1'' 1 ''alice'' ''invoice.txt'' ''Total amount due: $500''"

definition chunkTerms :: FolderChunk where
  "chunkTerms = exampleChunk ''c2'' 1 ''alice'' ''terms.txt'' ''Payment within thirty days''"

definition chunkRecipe :: FolderChunk where
  "chunkRecipe = exampleChunk ''c3'' 2 ''bob'' ''recipe.txt'' ''Mix flour and sugar''"

definition exampleEmbedding :: "string \<Rightarrow> real list" where
  "exampleEmbedding text =
     (if text = ''Payment within thirty days'' then [4 / 5, 3 / 5]
      else if text = ''Mix flour and sugar'' then [0, 1]
      else [1, 0])"

definition exampleService :: "bool \<Rightarrow> ragService" where
  "exampleService indexedDBAvailable =
     (case storeChunksLoop (newService indexedDBAvailable True)
             [chunkInvoice, chunkTerms, chunkRecipe] of
        Inl (e, s) \<Rightarrow> s
      | Inr s \<Rightarrow>
          generateEmbeddingsForChunks exampleEmbedding s [chunkInvoice, chunkTerms, chunkRecipe])"

text \<open>
  A folder whose configured threshold is raised to 0.9 through \<open>setFolderConfig\<close>.
\<close>

definition strictConfigs :: folderConfigs where
  "strictConfigs =
     setFolderConfig Map.empty 1
       \<lparr>pIncludeRAGData = None, pMaxRAGTokens = None, pRagSimilarityThreshold = Some (9 / 10),
        pPreserveConversationContext = None, pMaxConversationTokens = None\<rparr>"

text \<open>Two documents of one scope, and the graph read back after both have been processed.\<close>

definition docInvoice :: FolderDocument where
  "docInvoice = exampleDoc ''docA'' ''invoice.txt'' ''Total amount due: $500''"

definition docTerms :: FolderDocument where
  "docTerms = exampleDoc ''docB'' ''terms.txt'' ''Payment within thirty days''"

definition graphAfterBoth :: "bool \<Rightarrow> FolderKnowledgeGraph option" where
  "graphAfterBoth indexedDBAvailable =
     (case updateKnowledgeGraph (newService indexedDBAvailable True) docInvoice [chunkInvoice] of
        Inl e \<Rightarrow> None
      | Inr s1 \<Rightarrow>
          (case updateKnowledgeGraph s1 docTerms [chunkTerms] of
             Inl e \<Rightarrow> None
           | Inr s2 \<Rightarrow> getKnowledgeGraph s2 1 ''alice''))"

definition serviceAfterInvoice :: ragService where
  "serviceAfterInvoice =
     (newService True True)\<lparr>folderKnowledgeGraphs := [graphOf docInvoice [chunkInvoice]]\<rparr>"

definition serviceAfterTerms :: ragService where
  "serviceAfterTerms =
     (newService True True)\<lparr>folderKnowledgeGraphs := [graphOf docTerms [chunkTerms]]\<rparr>"


subsection \<open>Invariants of the store\<close>

text \<open>
  Every chunk that \<open>getChunks\<close> returns for a scope carries that scope; and every graph
  in the IndexedDB store has the id that \<open>updateKnowledgeGraph\<close> derives from its folder.
\<close>

definition chunksScoped :: "ragService \<Rightarrow> bool" where
  "chunksScoped st \<longleftrightarrow>
     (\<forall>folderId userId. \<forall>c \<in> set (getChunks st folderId userId).
        chunk_folderId c = folderId \<and> chunk_userId c = userId)"

definition graphIdsDerived :: "ragService \<Rightarrow> bool" where
  "graphIdsDerived st \<longleftrightarrow>
     (\<forall>g \<in> set (folderKnowledgeGraphs st). graph_id g = showInt (graph_folderId g) @ ''-graph'')"


section \<open>Properties of the context manager\<close>

lemma pairWalk_shape:
  "pairWalk av mm xs (sel, used, tr) = (sel', used', tr') \<Longrightarrow>
     \<exists>k. 2 * k \<le> length xs \<and> sel' = rev (take (2 * k) xs) @ sel
        \<and> (tr' \<longrightarrow> tr \<or> 2 * k + 2 \<le> length xs)
        \<and> (tr \<longrightarrow> tr')
        \<and> (used' = used \<and> k = 0 \<or> used' \<le> av \<and> int (length sel') \<le> mm)"
proof (induction av mm xs "(sel, used, tr)" arbitrary: sel used tr rule: pairWalk.induct)
  case (1 av mm a u rest sel used tr)
  let ?pt = "estimateMessageTokens a + estimateMessageTokens u"
  show ?case
  proof (cases "used + ?pt \<le> av \<and> int (length sel) + 2 \<le> mm")
    case True
    with "1.prems" have eq: "pairWalk av mm rest (u # a # sel, used + ?pt, tr) = (sel', used', tr')"
      by (simp add: Let_def)
    from "1.hyps"[OF refl True eq] obtain k where k:
      "2 * k \<le> length rest" "sel' = rev (take (2 * k) rest) @ u # a # sel"
      "tr' \<longrightarrow> tr \<or> 2 * k + 2 \<le> length rest" "tr \<longrightarrow> tr'"
      "used' = used + ?pt \<and> k = 0 \<or> used' \<le> av \<and> int (length sel') \<le> mm"
      by blast
    show ?thesis
      apply (rule exI[of _ "Suc k"])
      using k True by auto
  next
    case False
    with "1.prems" have "sel' = sel" "used' = used" "tr'" by (auto simp: Let_def)
    then show ?thesis by (intro exI[of _ 0]) auto
  qed
qed (rule exI[of _ 0], simp)+

lemma lastIndexOf_none: "c \<notin> set s \<Longrightarrow> lastIndexOf s c = - 1"
  by (simp add: lastIndexOf_def)

lemma lastIndexOf_last:
  assumes "p < length s" "s ! p = c" "c \<notin> set (drop (Suc p) s)"
  shows "lastIndexOf s c = int p"
proof -
  have s: "s = take p s @ c # drop (Suc p) s"
    using assms by (metis id_take_nth_drop)
  have "rev s = rev (drop (Suc p) s) @ c # rev (take p s)"
    by (subst s) simp
  moreover have "\<forall>x \<in> set (rev (drop (Suc p) s)). x \<noteq> c" using assms(3) by auto
  ultimately have "takeWhile (\<lambda>x. x \<noteq> c) (rev s) = rev (drop (Suc p) s)"
    by (simp add: takeWhile_tail)
  moreover have "c \<in> set s" using assms by (metis nth_mem)
  ultimately show ?thesis using assms(1) by (simp add: lastIndexOf_def)
qed

lemma lastIndexOf_cases:
  "(c \<notin> set s \<and> lastIndexOf s c = - 1) \<or>
   (\<exists>p. p < length s \<and> s ! p = c \<and> c \<notin> set (drop (Suc p) s) \<and> lastIndexOf s c = int p)"
proof (cases "c \<in> set s")
  case False then show ?thesis by (simp add: lastIndexOf_none)
next
  case True
  then have "c \<in> set (rev s)" by simp
  then obtain ys zs where yz: "rev s = ys @ c # zs" "c \<notin> set ys"
    by (meson split_list_first)
  then have s: "s = rev zs @ c # rev ys" by (metis rev_append rev.simps(2) rev_rev_ident append.assoc append_Cons append_Nil)
  let ?p = "length zs"
  have "?p < length s" by (subst s) simp
  moreover have "s ! ?p = c" by (subst s) (simp add: nth_append)
  moreover have "drop (Suc ?p) s = rev ys" by (subst s) simp
  then have "c \<notin> set (drop (Suc ?p) s)" using yz(2) by simp
  ultimately show ?thesis using lastIndexOf_last by blast
qed

lemma substring_prefix:
  "substring s 0 n = take (nat n) s"
  by (auto simp: substring_def clampIndex_def Let_def)

lemma truncateText_long:
  assumes "maxChars = maxTokens' * 4" "maxChars < int (length text)"
  defines "W \<equiv> take (nat maxChars) text"
  shows "(\<forall>p. p < length W \<and> W ! p = CHR '' '' \<and> CHR '' '' \<notin> set (drop (Suc p) W)
              \<and> 4 * maxChars < 5 * int p
            \<longrightarrow> truncateText text maxTokens' = take p text @ ''...'')"
    and "(\<forall>p < length W. W ! p = CHR '' '' \<longrightarrow> 5 * int p \<le> 4 * maxChars)
            \<longrightarrow> truncateText text maxTokens' = W @ ''...''"
proof -
  have tt: "truncateText text maxTokens' =
      (if 4 * maxChars < 5 * lastIndexOf W (CHR '' '')
       then take (nat (lastIndexOf W (CHR '' ''))) W @ ''...'' else W @ ''...'')"
    using assms(1,2) by (simp add: truncateText_def Let_def substring_prefix W_def)
  show "\<forall>p. p < length W \<and> W ! p = CHR '' '' \<and> CHR '' '' \<notin> set (drop (Suc p) W)
              \<and> 4 * maxChars < 5 * int p
            \<longrightarrow> truncateText text maxTokens' = take p text @ ''...''"
  proof (intro allI impI)
    fix p assume p: "p < length W \<and> W ! p = CHR '' '' \<and> CHR '' '' \<notin> set (drop (Suc p) W)
              \<and> 4 * maxChars < 5 * int p"
    then have li: "lastIndexOf W (CHR '' '') = int p" by (simp add: lastIndexOf_last)
    have "p \<le> nat maxChars" using p by (simp add: W_def)
    then have "take p W = take p text" by (simp add: W_def min_def)
    then show "truncateText text maxTokens' = take p text @ ''...''"
      using p li tt by simp
  qed
  show "(\<forall>p < length W. W ! p = CHR '' '' \<longrightarrow> 5 * int p \<le> 4 * maxChars)
            \<longrightarrow> truncateText text maxTokens' = W @ ''...''"
  proof
    assume a: "\<forall>p < length W. W ! p = CHR '' '' \<longrightarrow> 5 * int p \<le> 4 * maxChars"
    from lastIndexOf_cases[of "CHR '' ''" W]
    show "truncateText text maxTokens' = W @ ''...''"
    proof
      assume n: "CHR '' '' \<notin> set W \<and> lastIndexOf W (CHR '' '') = - 1"
      show ?thesis
      proof (cases "4 * maxChars < - 5")
        case True
        then have "W = []" by (simp add: W_def)
        then show ?thesis using tt by simp
      next
        case False
        then show ?thesis using tt n by simp
      qed
    next
      assume "\<exists>p. p < length W \<and> W ! p = CHR '' '' \<and> CHR '' '' \<notin> set (drop (Suc p) W)
                 \<and> lastIndexOf W (CHR '' '') = int p"
      then obtain p where p: "p < length W" "W ! p = CHR '' ''" "lastIndexOf W (CHR '' '') = int p"
        by blast
      with a have "5 * int p \<le> 4 * maxChars" by blast
      then show ?thesis using tt p by simp
    qed
  qed
qed

lemma estimate_gt_iff: "k < estimateTokens text \<longleftrightarrow> 4 * k < int (length text)"
  by (auto simp: estimateTokens_def)

lemma truncateText_length:
  assumes "0 \<le> maxTokens'" "maxTokens' * 4 < int (length text)"
  shows "int (length (truncateText text maxTokens')) \<le> maxTokens' * 4 + 3"
  using assms by (auto simp: truncateText_def Let_def substring_prefix)

lemma pairWalk_last:
  assumes "pairWalk av mm xs (sel, used, tr) = (sel', used', tr')" "sel \<noteq> []"
  shows "sel' \<noteq> [] \<and> last sel' = last sel"
  using pairWalk_shape[OF assms(1)] assms(2) by auto

lemma pairWalk_flag:
  assumes "pairWalk av mm xs (sel, used, True) = (sel', used', tr')"
  shows "tr'"
  using pairWalk_shape[OF assms(1)] by auto

lemma buildContext_nonempty:
  assumes "msgs \<noteq> []"
      and "pairWalk (availableTokensOf sp lims) (maxMessages (spreadLimits DEFAULT_LIMITS lims))
             (rev (butlast msgs)) (includeLatest (availableTokensOf sp lims) (last msgs))
           = (sel, used, tr)"
  shows "buildContext msgs sp lims =
           \<lparr>messages = systemMessageOf sp # sel,
            totalTokens = estimateMessageTokens (systemMessageOf sp) + used,
            truncated = tr\<rparr>"
proof -
  have "hd (rev msgs) = last msgs" "tl (rev msgs) = rev (butlast msgs)"
    using assms(1) by (cases msgs rule: rev_cases; simp)+
  then show ?thesis using assms by (simp add: buildContext_def Let_def)
qed

lemma budget_eq:
  "maxTokens (spreadLimits DEFAULT_LIMITS lims) - reserveTokens (spreadLimits DEFAULT_LIMITS lims)
     = availableTokensOf sp lims + estimateMessageTokens (systemMessageOf sp)"
  by (simp add: availableTokensOf_def Let_def)

lemma includeLatest_not_user:
  "role m \<noteq> User \<Longrightarrow> includeLatest av m = ([], 0, False)"
  by (simp add: includeLatest_def)

lemma includeLatest_bounds:
  assumes "includeLatest av m = (sel, used, tr)"
  shows "length sel \<le> 1"
    and "av < used \<longrightarrow> role m = User \<and> av < estimateMessageTokens m \<or> av < 0"
    and "10 \<le> av \<longrightarrow> used \<le> av + 1"
proof -
  show "length sel \<le> 1" using assms by (auto simp: includeLatest_def Let_def split: if_splits)
  show "av < used \<longrightarrow> role m = User \<and> av < estimateMessageTokens m \<or> av < 0"
    using assms by (auto simp: includeLatest_def Let_def split: if_splits)
  show "10 \<le> av \<longrightarrow> used \<le> av + 1"
  proof
    assume av: "10 \<le> av"
    show "used \<le> av + 1"
    proof (cases "role m = User \<and> av < estimateMessageTokens m")
      case False
      then show ?thesis using assms av by (auto simp: includeLatest_def Let_def split: if_splits)
    next
      case True
      then have long: "(av - 10) * 4 < int (length (content m))"
        using estimate_gt_iff[of "av - 10" "content m"] by (simp add: estimateMessageTokens_def)
      have "int (length (truncateText (content m) (av - 10))) \<le> (av - 10) * 4 + 3"
        using truncateText_length[OF _ long] av by simp
      then have "estimateTokens (truncateText (content m) (av - 10)) \<le> av - 10 + 1"
        by (simp add: estimateTokens_def)
      moreover have "used = estimateTokens (truncateText (content m) (av - 10)) + 10"
        using assms True by (auto simp: includeLatest_def Let_def)
      ultimately show ?thesis by simp
    qed
  qed
qed

text \<open>
  Claim C5, the token budget as the code has it. The budget \<open>maxTokens - reserveTokens\<close>
  is checked for the history only, after the system message has been charged:
  \<open>totalTokens\<close> exceeds it only when the latest message is a user message that alone
  overflows what the system message leaves, or when the system message alone exceeds the budget
  (\<open>availableTokens < 0\<close>); when \<open>availableTokens\<close> is at least 10 the excess is at
  most one token. The number of returned messages is not part of this statement.
\<close>

theorem C5_context_bounds:
  "let fl = spreadLimits DEFAULT_LIMITS lims;
       r = buildContext msgs sp lims;
       av = availableTokensOf sp lims
   in (maxTokens fl - reserveTokens fl < totalTokens r \<longrightarrow>
            av < 0 \<or> (msgs \<noteq> [] \<and> role (last msgs) = User \<and> av < estimateMessageTokens (last msgs)))
      \<and> (10 \<le> av \<longrightarrow> totalTokens r \<le> maxTokens fl - reserveTokens fl + 1)"
proof (cases "msgs = []")
  case True
  then show ?thesis
    by (simp add: buildContext_def Let_def budget_eq[of lims sp])
next
  case False
  let ?av = "availableTokensOf sp lims"
  let ?mm = "maxMessages (spreadLimits DEFAULT_LIMITS lims)"
  obtain sel0 used0 tr0 where il: "includeLatest ?av (last msgs) = (sel0, used0, tr0)"
    by (metis prod_cases3)
  obtain sel used tr where pw: "pairWalk ?av ?mm (rev (butlast msgs)) (sel0, used0, tr0) = (sel, used, tr)"
    by (metis prod_cases3)
  have bc: "buildContext msgs sp lims =
           \<lparr>messages = systemMessageOf sp # sel,
            totalTokens = estimateMessageTokens (systemMessageOf sp) + used,
            truncated = tr\<rparr>"
    using buildContext_nonempty[OF False] il pw by simp
  from pairWalk_shape[OF pw] obtain k where k:
    "sel = rev (take (2 * k) (rev (butlast msgs))) @ sel0"
    "used = used0 \<and> k = 0 \<or> used \<le> ?av \<and> int (length sel) \<le> ?mm"
    by blast
  note b = includeLatest_bounds[OF il]
  have over: "?av < used \<longrightarrow>
      ?av < 0 \<or> (role (last msgs) = User \<and> ?av < estimateMessageTokens (last msgs))"
    using k(2) b(2) by auto
  have one: "10 \<le> ?av \<longrightarrow> used \<le> ?av + 1" using k(2) b(3) by auto
  show ?thesis
    using over one False by (simp add: bc Let_def budget_eq[of lims sp])
qed

text \<open>
  Claim C10. When the most recent message of a non-empty history has role assistant, the
  output is the system message followed by a trailing segment of the older messages
  (the history without its last element), so the most recent message is not part of it;
  and the \<open>truncated\<close> flag is set only if a whole pair of older messages was left out.
\<close>

theorem C10_latest_assistant_dropped:
  assumes "msgs \<noteq> []" and "role (last msgs) = Assistant"
  shows "hd (messages (buildContext msgs sp lims)) = systemMessageOf sp
       \<and> suffix (tl (messages (buildContext msgs sp lims))) (butlast msgs)
       \<and> (truncated (buildContext msgs sp lims) \<longrightarrow>
            length (tl (messages (buildContext msgs sp lims))) + 2 \<le> length (butlast msgs))"
proof -
  let ?av = "availableTokensOf sp lims"
  let ?mm = "maxMessages (spreadLimits DEFAULT_LIMITS lims)"
  have il: "includeLatest ?av (last msgs) = ([], 0, False)"
    using assms(2) by (simp add: includeLatest_not_user)
  obtain sel used tr where pw: "pairWalk ?av ?mm (rev (butlast msgs)) ([], 0, False) = (sel, used, tr)"
    by (metis prod_cases3)
  have bc: "buildContext msgs sp lims =
           \<lparr>messages = systemMessageOf sp # sel,
            totalTokens = estimateMessageTokens (systemMessageOf sp) + used,
            truncated = tr\<rparr>"
    using buildContext_nonempty[OF assms(1)] il pw by simp
  from pairWalk_shape[OF pw] obtain k where k:
    "2 * k \<le> length (rev (butlast msgs))"
    "sel = rev (take (2 * k) (rev (butlast msgs))) @ []"
    "tr \<longrightarrow> False \<or> 2 * k + 2 \<le> length (rev (butlast msgs))"
    by blast
  have sel: "sel = drop (length (butlast msgs) - 2 * k) (butlast msgs)"
    using k(1,2) by (simp add: take_rev)
  then have "suffix sel (butlast msgs)" by (metis suffix_drop)
  moreover have "tr \<longrightarrow> length sel + 2 \<le> length (butlast msgs)"
    using k(1,3) sel by auto
  ultimately show ?thesis by (simp add: bc)
qed

text \<open>
  Claim C4, as the code has it. When the most recent message has role user it is the last
  message of the output: unchanged when its estimate fits \<open>availableTokens\<close>; otherwise
  \<open>truncated\<close> is set and its content is cut within the character budget
  \<open>maxChars = (availableTokens - 10) * 4\<close>, at the last space of the first
  \<open>maxChars\<close> characters when that space lies beyond 80% of \<open>maxChars\<close>, and hard at
  \<open>maxChars\<close> when no space lies beyond 80%; an ellipsis is appended in both cases.
\<close>

theorem C4_latest_user_message:
  assumes "msgs \<noteq> []" and "role (last msgs) = User"
  shows "let av = availableTokensOf sp lims;
             m = last msgs;
             r = buildContext msgs sp lims;
             out = last (messages r);
             maxChars = (av - 10) * 4;
             W = take (nat maxChars) (content m)
         in (estimateMessageTokens m \<le> av \<longrightarrow> out = m)
          \<and> (av < estimateMessageTokens m \<longrightarrow>
                truncated r \<and> role out = User
              \<and> (\<forall>p. p < length W \<and> W ! p = CHR '' '' \<and> CHR '' '' \<notin> set (drop (Suc p) W)
                       \<and> 4 * maxChars < 5 * int p
                     \<longrightarrow> content out = take p (content m) @ ''...'')
              \<and> ((\<forall>p < length W. W ! p = CHR '' '' \<longrightarrow> 5 * int p \<le> 4 * maxChars)
                     \<longrightarrow> content out = W @ ''...''))"
proof -
  let ?av = "availableTokensOf sp lims"
  let ?mm = "maxMessages (spreadLimits DEFAULT_LIMITS lims)"
  let ?m = "last msgs"
  obtain sel0 used0 tr0 where il: "includeLatest ?av ?m = (sel0, used0, tr0)"
    by (metis prod_cases3)
  obtain sel used tr where pw: "pairWalk ?av ?mm (rev (butlast msgs)) (sel0, used0, tr0) = (sel, used, tr)"
    by (metis prod_cases3)
  have bc: "buildContext msgs sp lims =
           \<lparr>messages = systemMessageOf sp # sel,
            totalTokens = estimateMessageTokens (systemMessageOf sp) + used,
            truncated = tr\<rparr>"
    using buildContext_nonempty[OF assms(1)] il pw by simp
  have ne: "sel0 \<noteq> []" using il assms(2) by (auto simp: includeLatest_def Let_def split: if_splits)
  from pairWalk_last[OF pw ne] have last: "sel \<noteq> []" "last sel = last sel0" by simp_all
  then have out: "last (messages (buildContext msgs sp lims)) = last sel0" by (simp add: bc)
  have fits: "estimateMessageTokens ?m \<le> ?av \<longrightarrow> last sel0 = ?m"
    using il assms(2) by (auto simp: includeLatest_def Let_def split: if_splits)
  have over: "?av < estimateMessageTokens ?m \<longrightarrow>
       tr \<and> last sel0 = ?m\<lparr>content := truncateText (content ?m) (?av - 10)\<rparr>"
  proof
    assume a: "?av < estimateMessageTokens ?m"
    then have "sel0 = [?m\<lparr>content := truncateText (content ?m) (?av - 10)\<rparr>]" "tr0"
      using il assms(2) by (auto simp: includeLatest_def Let_def split: if_splits)
    moreover from this pw have "tr" using pairWalk_flag by metis
    ultimately show "tr \<and> last sel0 = ?m\<lparr>content := truncateText (content ?m) (?av - 10)\<rparr>"
      by simp
  qed
  have long: "?av < estimateMessageTokens ?m \<Longrightarrow> (?av - 10) * 4 < int (length (content ?m))"
    using estimate_gt_iff[of "?av - 10" "content ?m"] by (simp add: estimateMessageTokens_def)
  show ?thesis
    unfolding Let_def
  proof (intro conjI impI)
    assume "estimateMessageTokens ?m \<le> ?av"
    then show "last (messages (buildContext msgs sp lims)) = ?m"
      using fits out by simp
  next
    assume "?av < estimateMessageTokens ?m"
    then show "truncated (buildContext msgs sp lims)" using over by (simp add: bc)
  next
    assume "?av < estimateMessageTokens ?m"
    then show "role (last (messages (buildContext msgs sp lims))) = User"
      using over out assms(2) by simp
  next
    assume a: "?av < estimateMessageTokens ?m"
    then have c: "content (last (messages (buildContext msgs sp lims)))
         = truncateText (content ?m) (?av - 10)"
      using over out by simp
    show "\<forall>p. p < length (take (nat ((?av - 10) * 4)) (content ?m))
            \<and> take (nat ((?av - 10) * 4)) (content ?m) ! p = CHR '' ''
            \<and> CHR '' '' \<notin> set (drop (Suc p) (take (nat ((?av - 10) * 4)) (content ?m)))
            \<and> 4 * ((?av - 10) * 4) < 5 * int p
          \<longrightarrow> content (last (messages (buildContext msgs sp lims))) = take p (content ?m) @ ''...''"
      unfolding c using truncateText_long(1)[OF refl long[OF a]] .
  next
    assume a: "?av < estimateMessageTokens ?m"
       and b: "\<forall>p < length (take (nat ((?av - 10) * 4)) (content ?m)).
            take (nat ((?av - 10) * 4)) (content ?m) ! p = CHR '' '' \<longrightarrow> 5 * int p \<le> 4 * ((?av - 10) * 4)"
    have c: "content (last (messages (buildContext msgs sp lims)))
         = truncateText (content ?m) (?av - 10)"
      using a over out by simp
    show "content (last (messages (buildContext msgs sp lims)))
             = take (nat ((?av - 10) * 4)) (content ?m) @ ''...''"
      unfolding c using truncateText_long(2)[OF refl long[OF a]] b by blast
  qed
qed

lemma ex4_eval:
  "buildContext [ex4_message] [] ex4_limits =
     \<lparr>messages = [systemMessageOf [], \<lparr>role = User, content = ''hello '' @ replicate 34 (CHR ''x'') @ ''...''\<rparr>],
      totalTokens = 31, truncated = True\<rparr>"
  by code_simp

text \<open>
  Claim C4 as stated fails: with a character budget of 40 and the only space at position 5
  (before 80% of the budget), the code cuts hard at 40 characters, where the stated rule cuts
  at the word boundary.
\<close>

theorem C4_counterexample:
  "content (last (messages (buildContext [ex4_message] [] ex4_limits)))
      = ''hello xxxxxxxxxxxxxxxxxxxxxxxxxxxxxxxxxx...''
   \<and> truncateBeforeEighty (content ex4_message) ((availableTokensOf [] ex4_limits - 10) * 4)
      = ''hello...''"
  by code_simp

text \<open>
  The theorem for C4 at two inputs whose latest user message overflows a budget of 40
  characters: with the only space at position 5 it is cut hard at 40 characters, with a
  space at position 36 (beyond 80% of the budget) it is cut at that space.
\<close>

theorem C4_latest_user_message_witness:
  "[ex4_message] \<noteq> [] \<and> role (last [ex4_message]) = User
   \<and> availableTokensOf [] ex4_limits < estimateMessageTokens (last [ex4_message])
   \<and> truncated (buildContext [ex4_message] [] ex4_limits)
   \<and> role (last (messages (buildContext [ex4_message] [] ex4_limits))) = User
   \<and> content (last (messages (buildContext [ex4_message] [] ex4_limits)))
        = take 40 (content ex4_message) @ ''...''
   \<and> role (last [ex4_spaced]) = User
   \<and> availableTokensOf [] ex4_limits < estimateMessageTokens (last [ex4_spaced])
   \<and> content (last (messages (buildContext [ex4_spaced] [] ex4_limits)))
        = replicate 36 (CHR ''x'') @ ''...''"
proof -
  have h1: "[ex4_message] \<noteq> []" by simp
  have h2: "role (last [ex4_message]) = User" by (simp add: ex4_message_def)
  have av: "availableTokensOf [] ex4_limits = 20" by code_simp
  have est: "estimateMessageTokens (last [ex4_message]) = 22" by code_simp
  have W: "take (nat ((20 - 10) * 4)) (content (last [ex4_message])) = ''hello '' @ replicate 34 (CHR ''x'')"
    by code_simp
  have sp: "\<forall>p < length (''hello '' @ replicate 34 (CHR ''x'')).
     (''hello '' @ replicate 34 (CHR ''x'')) ! p = CHR '' '' \<longrightarrow> 5 * int p \<le> 4 * ((20 - 10) * 4)"
    by (auto simp: nth_append nth_Cons' split: if_splits)
  from C4_latest_user_message[OF h1 h2, of "[]" ex4_limits]
  have first: "truncated (buildContext [ex4_message] [] ex4_limits)
   \<and> role (last (messages (buildContext [ex4_message] [] ex4_limits))) = User
   \<and> content (last (messages (buildContext [ex4_message] [] ex4_limits)))
        = take 40 (content ex4_message) @ ''...''"
    unfolding Let_def av est W using sp h2 by (simp add: ex4_message_def)
  have g1: "[ex4_spaced] \<noteq> []" by simp
  have g2: "role (last [ex4_spaced]) = User" by (simp add: ex4_spaced_def)
  have est': "estimateMessageTokens (last [ex4_spaced]) = 22" by code_simp
  have W': "take (nat ((20 - 10) * 4)) (content (last [ex4_spaced]))
              = replicate 36 (CHR ''x'') @ '' '' @ replicate 3 (CHR ''y'')"
    by code_simp
  have p36: "36 < length (replicate 36 (CHR ''x'') @ '' '' @ replicate 3 (CHR ''y''))
     \<and> (replicate 36 (CHR ''x'') @ '' '' @ replicate 3 (CHR ''y'')) ! 36 = CHR '' ''
     \<and> CHR '' '' \<notin> set (drop (Suc 36) (replicate 36 (CHR ''x'') @ '' '' @ replicate 3 (CHR ''y'')))
     \<and> 4 * ((20 - 10) * 4) < 5 * int 36"
    by (simp add: nth_append)
  have t36: "take 36 (content (last [ex4_spaced])) = replicate 36 (CHR ''x'')"
    by (simp add: ex4_spaced_def)
  from C4_latest_user_message[OF g1 g2, of "[]" ex4_limits]
  have "\<forall>p. p < length (replicate 36 (CHR ''x'') @ '' '' @ replicate 3 (CHR ''y''))
           \<and> (replicate 36 (CHR ''x'') @ '' '' @ replicate 3 (CHR ''y'')) ! p = CHR '' ''
           \<and> CHR '' '' \<notin> set (drop (Suc p) (replicate 36 (CHR ''x'') @ '' '' @ replicate 3 (CHR ''y'')))
           \<and> 4 * ((20 - 10) * 4) < 5 * int p
         \<longrightarrow> content (last (messages (buildContext [ex4_spaced] [] ex4_limits)))
               = take p (content (last [ex4_spaced])) @ ''...''"
    unfolding Let_def av est' W' by simp
  then have second: "content (last (messages (buildContext [ex4_spaced] [] ex4_limits)))
               = take 36 (content (last [ex4_spaced])) @ ''...''"
    using p36 by blast
  show ?thesis
    unfolding av using h1 h2 g2 first second est est' t36 by simp
qed

lemma ex5_count:
  "messages (buildContext ex5_history ''You are a helpful assistant.'' noLimits)
     = systemMessageOf ''You are a helpful assistant.'' # concat (replicate 10 [ex5_assistant, ex5_user])"
  by code_simp

text \<open>
  The guard \<open>selectedMessages.length + 2 <= limits.maxMessages\<close> of the pair loop does not
  count the system message. Under the default limits a history of 21 short messages ending
  with an assistant message gives an array of 21 messages for \<open>maxMessages = 20\<close>.
\<close>

lemma buildContext_message_count:
  "int (length (messages (buildContext ex5_history ''You are a helpful assistant.'' noLimits)))
      = 21
   \<and> maxMessages (spreadLimits DEFAULT_LIMITS noLimits) = 20"
proof -
  have "maxMessages (spreadLimits DEFAULT_LIMITS noLimits) = 20"
    by (simp add: spreadLimits_def DEFAULT_LIMITS_def noLimits_def)
  then show ?thesis by (simp add: ex5_count length_concat sum_list_replicate)
qed

lemma ex5_tokens:
  "totalTokens (buildContext [] (replicate 26000 (CHR ''x'')) noLimits) = 6510"
  by (simp add: buildContext_def Let_def estimateMessageTokens_def estimateTokens_def systemMessageOf_def)

text \<open>
  Claim C5 as stated fails: under the default limits an empty history with a system prompt of
  26000 characters gives 6510 tokens for a budget of 6500, with no user message involved.
\<close>

theorem C5_counterexample:
  "totalTokens (buildContext [] (replicate 26000 (CHR ''x'')) noLimits) = 6510
   \<and> maxTokens (spreadLimits DEFAULT_LIMITS noLimits)
        - reserveTokens (spreadLimits DEFAULT_LIMITS noLimits) = 6500"
proof -
  have "maxTokens (spreadLimits DEFAULT_LIMITS noLimits)
          - reserveTokens (spreadLimits DEFAULT_LIMITS noLimits) = 6500"
    by (simp add: spreadLimits_def DEFAULT_LIMITS_def noLimits_def)
  then show ?thesis by (simp add: ex5_tokens)
qed

text \<open>
  The theorem for C5 at an input where the latest user message overflows: the total is one
  token over the budget.
\<close>

theorem C5_context_bounds_witness:
  "maxTokens (spreadLimits DEFAULT_LIMITS ex4_limits) - reserveTokens (spreadLimits DEFAULT_LIMITS ex4_limits)
     < totalTokens (buildContext [ex4_message] [] ex4_limits)
   \<and> role (last [ex4_message]) = User
   \<and> availableTokensOf [] ex4_limits < estimateMessageTokens (last [ex4_message])
   \<and> totalTokens (buildContext [ex4_message] [] ex4_limits) \<le> 
      maxTokens (spreadLimits DEFAULT_LIMITS ex4_limits) - reserveTokens (spreadLimits DEFAULT_LIMITS ex4_limits) + 1"
proof -
  have av: "availableTokensOf [] ex4_limits = 20" by code_simp
  have b: "maxTokens (spreadLimits DEFAULT_LIMITS ex4_limits) - reserveTokens (spreadLimits DEFAULT_LIMITS ex4_limits) = 30"
    by code_simp
  have t: "totalTokens (buildContext [ex4_message] [] ex4_limits) = 31" by (simp add: ex4_eval)
  from C5_context_bounds[of ex4_limits "[ex4_message]" "[]"]
  show ?thesis unfolding Let_def av b t by simp
qed

text \<open>
  The theorem for C10 on a four-message history ending with an assistant message.
\<close>

theorem C10_latest_assistant_dropped_witness:
  "ex10_history \<noteq> [] \<and> role (last ex10_history) = Assistant
   \<and> messages (buildContext ex10_history ''s'' noLimits) = [systemMessageOf ''s'', ex5_assistant, ex5_user]
   \<and> suffix (tl (messages (buildContext ex10_history ''s'' noLimits))) (butlast ex10_history)
   \<and> \<not> truncated (buildContext ex10_history ''s'' noLimits)"
proof -
  have h1: "ex10_history \<noteq> []" by (simp add: ex10_history_def)
  have h2: "role (last ex10_history) = Assistant" by (simp add: ex10_history_def ex5_assistant_def)
  have m: "messages (buildContext ex10_history ''s'' noLimits) = [systemMessageOf ''s'', ex5_assistant, ex5_user]"
    by code_simp
  have t: "\<not> truncated (buildContext ex10_history ''s'' noLimits)" by code_simp
  from C10_latest_assistant_dropped[OF h1 h2, of "''s''" noLimits]
  show ?thesis using h1 h2 m t by simp
qed

section \<open>Properties of the chunker\<close>

lemma filter_not_dropWhile: "filter (\<lambda>c. \<not> P c) (dropWhile P xs) = filter (\<lambda>c. \<not> P c) xs"
  by (induction xs) auto

lemma splitRuns_concat:
  "concat (splitRuns sep cur str) = cur @ filter (\<lambda>c. \<not> sep c) str"
  by (induction sep cur str rule: splitRuns.induct) (auto simp: filter_not_dropWhile)

lemma splitRuns_replicate:
  "\<not> sep c \<Longrightarrow>
     splitRuns sep cur (replicate n c @ rest) = splitRuns sep (cur @ replicate n c) rest"
  by (induction n arbitrary: cur) (auto simp: replicate_app_Cons_same)

lemma trim_nonempty_iff: "trim s \<noteq> [] \<longleftrightarrow> (\<exists>c \<in> set s. \<not> isWhitespace c)"
proof -
  have "trim s \<noteq> [] \<longleftrightarrow> (\<exists>c \<in> set (dropWhile isWhitespace s). \<not> isWhitespace c)"
    by (simp add: trim_def dropWhile_eq_Nil_conv)
  also have "\<dots> \<longleftrightarrow> (\<exists>c \<in> set s. \<not> isWhitespace c)"
    by (induction s) auto
  finally show ?thesis .
qed

lemma trim_id:
  assumes "s \<noteq> []" "\<not> isWhitespace (hd s)" "\<not> isWhitespace (last s)"
  shows "trim s = s"
proof -
  have 1: "dropWhile isWhitespace s = s" using assms(1,2) by (cases s) auto
  have "rev s \<noteq> []" "\<not> isWhitespace (hd (rev s))" using assms(1,3) by (simp_all add: hd_rev)
  then have 2: "dropWhile isWhitespace (rev s) = rev s" by (cases "rev s") auto
  show ?thesis by (simp add: trim_def 1 2)
qed

lemma significant_dropWhile: "significant (dropWhile isWhitespace s) = significant s"
  by (induction s) (auto simp: significant_def)

lemma significant_rev: "significant (rev s) = rev (significant s)"
  by (simp add: significant_def rev_filter)

lemma significant_trim: "significant (trim s) = significant s"
  by (simp add: trim_def significant_rev significant_dropWhile)

lemma significant_append: "significant (a @ b) = significant a @ significant b"
  by (simp add: significant_def)

lemma significant_join: "significant (joinWith '' '' xs) = significant (concat xs)"
  by (induction "'' ''" xs rule: joinWith.induct)
     (auto simp: significant_append, simp add: significant_def isWhitespace_def)

lemma significant_blank: "trim s = [] \<Longrightarrow> significant s = []"
  using trim_nonempty_iff[of s] by (auto simp: significant_def filter_empty_conv)

lemma significant_concat_filter:
  "significant (concat (filter (\<lambda>s. trim s \<noteq> []) xs)) = significant (concat xs)"
  by (induction xs) (auto simp: significant_append significant_blank)

lemma significant_no_terminators:
  "significant (filter (\<lambda>c. \<not> isTerminator c) s) = significant s"
  by (induction s) (auto simp: significant_def)

lemma significant_sentences:
  "significant (joinWith '' '' (splitIntoSentences str)) = significant str"
  by (simp add: significant_join splitIntoSentences_def significant_concat_filter
        splitRuns_concat significant_no_terminators)

lemma sentences_nonblank: "s \<in> set (splitIntoSentences str) \<Longrightarrow> trim s \<noteq> []"
  by (auto simp: splitIntoSentences_def)

lemma joinWith_snoc:
  "joinWith sep (xs @ [s]) = (if xs = [] then s else joinWith sep xs @ sep @ s)"
  by (induction sep xs rule: joinWith.induct) auto

lemma joinWith_Cons:
  "ys \<noteq> [] \<Longrightarrow> joinWith sep (x # ys) = x @ sep @ joinWith sep ys"
  by (cases ys) auto

lemma joinWith_append:
  "joinWith sep (xs @ ys) =
     (if xs = [] then joinWith sep ys else if ys = [] then joinWith sep xs
      else joinWith sep xs @ sep @ joinWith sep ys)"
  by (induction sep xs rule: joinWith.induct) (auto simp: joinWith_Cons)

lemma joinWith_empty_iff:
  "\<forall>x \<in> set xs. x \<noteq> [] \<Longrightarrow> joinWith sep xs = [] \<longleftrightarrow> xs = []"
  by (induction sep xs rule: joinWith.induct) auto

lemma length_joinWith_prefix:
  "length (joinWith sep xs) \<le> length (joinWith sep (xs @ ys))"
  by (simp add: joinWith_append)

lemma estimateTokens_mono: "length a \<le> length b \<Longrightarrow> estimateTokens a \<le> estimateTokens b"
  by (simp add: estimateTokens_def zdiv_mono1)

lemma chunkLoop_fits:
  assumes "\<forall>s \<in> set (pre @ rest). s \<noteq> []"
      and "estimateTokens (joinWith '' '' (pre @ rest)) \<le> CHUNK_maxTokens"
      and "currentChunk st = joinWith '' '' pre"
  shows "foldl (chunkStep uuid d sentences) st rest
           = st\<lparr>currentChunk := joinWith '' '' (pre @ rest)\<rparr>"
  using assms
proof (induction rest arbitrary: pre st)
  case Nil
  then show ?case by simp
next
  case (Cons s rest)
  have pot: "currentChunk st @ (if currentChunk st \<noteq> [] then '' '' else []) @ s
               = joinWith '' '' (pre @ [s])"
    using Cons.prems(1,3) by (simp add: joinWith_snoc joinWith_empty_iff)
  have "length (joinWith '' '' (pre @ [s])) \<le> length (joinWith '' '' ((pre @ [s]) @ rest))"
    by (rule length_joinWith_prefix)
  then have "estimateTokens (joinWith '' '' (pre @ [s])) \<le> CHUNK_maxTokens"
    using Cons.prems(2) estimateTokens_mono by fastforce
  then have step: "chunkStep uuid d sentences st s = st\<lparr>currentChunk := joinWith '' '' (pre @ [s])\<rparr>"
    unfolding chunkStep_def Let_def pot by simp
  have "foldl (chunkStep uuid d sentences) (st\<lparr>currentChunk := joinWith '' '' (pre @ [s])\<rparr>) rest
         = (st\<lparr>currentChunk := joinWith '' '' (pre @ [s])\<rparr>)\<lparr>currentChunk := joinWith '' '' ((pre @ [s]) @ rest)\<rparr>"
    by (rule Cons.IH) (use Cons.prems in auto)
  then show ?case by (simp add: step)
qed

lemma sentences_nonempty: "s \<in> set (splitIntoSentences str) \<Longrightarrow> s \<noteq> []"
  using sentences_nonblank[of s str] by (auto simp: trim_def)

lemma joined_nonblank:
  assumes "xs \<noteq> []" "\<forall>s \<in> set xs. trim s \<noteq> []"
  shows "trim (joinWith sep xs) \<noteq> []"
proof -
  obtain x xs' where x: "xs = x # xs'" using assms(1) by (cases xs) auto
  then obtain c where c: "c \<in> set x" "\<not> isWhitespace c"
    using assms(2) trim_nonempty_iff[of x] by auto
  have "set x \<subseteq> set (joinWith sep xs)" unfolding x by (cases xs') auto
  then show ?thesis using c trim_nonempty_iff by blast
qed

text \<open>
  Claim C3, as the code has it. When the sentences of a document, joined by single spaces,
  stay within \<open>maxTokens\<close>, no chunk is closed inside the loop: the document yields one
  chunk, the joined sentences trimmed, when that text estimates to at least
  \<open>minChunkSize\<close> tokens, and no chunk at all otherwise. The chunk reproduces the
  characters of the document in order apart from the terminators \<open>. ! ?\<close> and white
  space, which the split and the join do not keep.
\<close>

theorem C3_single_chunk_document:
  assumes "estimateTokens (joinWith '' '' (splitIntoSentences (doc_content d))) \<le> CHUNK_maxTokens"
  shows "if CHUNK_minChunkSize \<le> estimateTokens (joinWith '' '' (splitIntoSentences (doc_content d)))
         then \<exists>c. chunkDocument uuid d = [c]
                \<and> chunk_content c = trim (joinWith '' '' (splitIntoSentences (doc_content d)))
                \<and> significant (chunk_content c) = significant (doc_content d)
         else chunkDocument uuid d = []"
proof -
  let ?ss = "splitIntoSentences (doc_content d)"
  let ?st0 = "\<lparr>currentChunk = [], curIndex = 0, curStart = 0, chunks = []\<rparr>"
  have "foldl (chunkStep uuid d ?ss) ?st0 ?ss = ?st0\<lparr>currentChunk := joinWith '' '' ([] @ ?ss)\<rparr>"
    by (rule chunkLoop_fits) (use assms sentences_nonempty in auto)
  then have loop: "chunkLoop uuid d ?ss ?st0 = ?st0\<lparr>currentChunk := joinWith '' '' ?ss\<rparr>"
    by (simp add: chunkLoop_def)
  show ?thesis
  proof (cases "CHUNK_minChunkSize \<le> estimateTokens (joinWith '' '' ?ss)")
    case False
    then show ?thesis by (simp add: chunkDocument_def Let_def loop)
  next
    case True
    then have "?ss \<noteq> []" by (auto simp: estimateTokens_def CHUNK_minChunkSize_def)
    then have "trim (joinWith '' '' ?ss) \<noteq> []"
      using joined_nonblank sentences_nonblank by blast
    then show ?thesis
      using True
      by (simp add: chunkDocument_def Let_def loop makeChunk_def significant_trim significant_sentences)
  qed
qed

lemma dropWhile_replicate_keep:
  "\<not> P c \<Longrightarrow> 0 < n \<Longrightarrow> dropWhile P (replicate n c @ r) = replicate n c @ r"
  by (cases n) auto

lemma sent_facts:
  "length sentA = 1500" "length sentB = 1500" "length sentC = 1500"
  "sentA \<noteq> []" "sentB \<noteq> []" "sentC \<noteq> []"
  "hd sentA = CHR ''a''" "last sentA = CHR ''a''" "last sentB = CHR ''b''" "last sentC = CHR ''c''"
  by (simp_all add: sentA_def sentB_def sentC_def)

lemma not_ws_abc:
  "\<not> isWhitespace (CHR ''a'')" "\<not> isWhitespace (CHR ''b'')" "\<not> isWhitespace (CHR ''c'')"
  by (simp_all add: isWhitespace_def)

lemma trim_sent: "trim sentA = sentA" "trim sentB = sentB" "trim sentC = sentC"
  by (rule trim_id; simp add: sentA_def sentB_def sentC_def isWhitespace_def)+

lemma threeSentenceDoc_sentences:
  "splitIntoSentences (doc_content threeSentenceDoc) = [sentA, sentB, sentC]"
proof -
  have "splitRuns isTerminator [] (doc_content threeSentenceDoc) = [sentA, sentB, sentC, []]"
    by (simp add: threeSentenceDoc_def exampleDoc_def sentA_def sentB_def sentC_def
          splitRuns_replicate isTerminator_def dropWhile_replicate_keep)
  then show ?thesis
    by (simp add: splitIntoSentences_def trim_sent sent_facts) (simp add: trim_def)
qed

lemma threeSentenceDoc_loop:
  "chunks (chunkLoop uuid threeSentenceDoc [sentA, sentB, sentC]
             \<lparr>currentChunk = [], curIndex = 0, curStart = 0, chunks = []\<rparr>)
     = [makeChunk uuid threeSentenceDoc \<lparr>currentChunk = sentA, curIndex = 0, curStart = 0, chunks = []\<rparr>,
        makeChunk uuid threeSentenceDoc
          \<lparr>currentChunk = sentA @ '' '' @ sentB @ '' '' @ sentC @ '' '' @ sentB,
           curIndex = 1, curStart = - 3002, chunks = []\<rparr>]
   \<and> currentChunk (chunkLoop uuid threeSentenceDoc [sentA, sentB, sentC]
             \<lparr>currentChunk = [], curIndex = 0, curStart = 0, chunks = []\<rparr>)
     = sentA @ '' '' @ sentB @ '' '' @ sentC @ '' '' @ sentC"
  apply (simp add: chunkLoop_def chunkStep_def Let_def sliceLast_def CHUNK_overlap_def
           CHUNK_maxTokens_def estimateTokens_def sent_facts makeChunk_def)
  done

lemma threeSentenceDoc_step:
  "currentChunk (chunkStep uuid threeSentenceDoc [sentA, sentB, sentC]
       \<lparr>currentChunk = sentA, curIndex = 0, curStart = 0, chunks = []\<rparr> sentB)
     = joinWith '' '' [sentA, sentB, sentC] @ '' '' @ sentB"
  by (simp add: chunkStep_def Let_def sliceLast_def CHUNK_overlap_def
           CHUNK_maxTokens_def estimateTokens_def sent_facts)

text \<open>
  Claim C2 on a document of three sentences of 1500 characters. When the second sentence
  closes the first chunk, the next buffer is seeded with \<open>sentences.slice(-50)\<close>, the last
  50 sentences of the whole document (here all three, the third not yet visited), followed by
  the triggering sentence, and not with the tail of the chunk just closed. The third chunk
  starts with the first sentence again, while the second chunk ends with the second
  sentence, and the start offsets come out negative.
\<close>

theorem C2_overlap_seed_is_whole_document:
  "currentChunk (chunkStep uuid threeSentenceDoc (splitIntoSentences (doc_content threeSentenceDoc))
       \<lparr>currentChunk = sentA, curIndex = 0, curStart = 0, chunks = []\<rparr> sentB)
     = sentA @ '' '' @ sentB @ '' '' @ sentC @ '' '' @ sentB
   \<and> map chunk_content (chunkDocument uuid threeSentenceDoc)
     = [sentA,
        sentA @ '' '' @ sentB @ '' '' @ sentC @ '' '' @ sentB,
        sentA @ '' '' @ sentB @ '' '' @ sentC @ '' '' @ sentC]
   \<and> map startOffset (chunkDocument uuid threeSentenceDoc) = [0, - 3002, - 1501]"
proof -
  let ?ss = "splitIntoSentences (doc_content threeSentenceDoc)"
  let ?st = "chunkLoop uuid threeSentenceDoc ?ss
               \<lparr>currentChunk = [], curIndex = 0, curStart = 0, chunks = []\<rparr>"
  note loop = threeSentenceDoc_loop[of uuid]
  have cur: "currentChunk ?st = sentA @ '' '' @ sentB @ '' '' @ sentC @ '' '' @ sentC"
    using loop by (simp add: threeSentenceDoc_sentences)
  have chs: "map chunk_content (chunks ?st)
      = [sentA, sentA @ '' '' @ sentB @ '' '' @ sentC @ '' '' @ sentB]"
    using loop
    by (simp add: threeSentenceDoc_sentences makeChunk_def trim_sent trim_id hd_append sent_facts not_ws_abc)
  have offs: "map startOffset (chunks ?st) = [0, - 3002]"
    using loop by (simp add: threeSentenceDoc_sentences makeChunk_def)
  have idx: "curStart ?st = - 1501"
    by (simp add: threeSentenceDoc_sentences chunkLoop_def chunkStep_def Let_def sliceLast_def
          CHUNK_overlap_def CHUNK_maxTokens_def estimateTokens_def sent_facts makeChunk_def)
  have tr: "trim (currentChunk ?st) = sentA @ '' '' @ sentB @ '' '' @ sentC @ '' '' @ sentC"
    unfolding cur by (simp add: trim_id hd_append sent_facts not_ws_abc)
  have big: "CHUNK_minChunkSize \<le> estimateTokens (currentChunk ?st)"
    unfolding cur by (simp add: estimateTokens_def CHUNK_minChunkSize_def sent_facts)
  have ne: "trim (currentChunk ?st) \<noteq> []" unfolding tr using sent_facts by simp
  have fin: "chunkDocument uuid threeSentenceDoc = chunks ?st @ [makeChunk uuid threeSentenceDoc ?st]"
    using ne big by (simp add: chunkDocument_def Let_def)
  show ?thesis
    using threeSentenceDoc_step[of uuid] chs offs tr idx
    by (simp add: fin threeSentenceDoc_sentences makeChunk_def)
qed

text \<open>
  Claim C3 as stated fails: a short document yields no chunk at all, since its only buffer
  estimates below \<open>minChunkSize\<close>, so the chunks concatenate to the empty text.
\<close>

theorem C3_counterexample:
  "concat (map chunk_content (chunkDocument (uuidOf ''c'') helloDoc)) = []
   \<and> doc_content helloDoc = ''Hello world.''"
  by code_simp

lemma twoSentenceDoc_sentences:
  "splitIntoSentences (doc_content twoSentenceDoc)
     = [replicate 400 (CHR ''a''), '' '' @ replicate 400 (CHR ''b'')]"
proof -
  have "splitRuns isTerminator [] (doc_content twoSentenceDoc)
     = [replicate 400 (CHR ''a''), '' '' @ replicate 400 (CHR ''b''), []]"
    by (simp add: twoSentenceDoc_def exampleDoc_def
          splitRuns_replicate isTerminator_def dropWhile_replicate_keep)
  moreover have "trim (replicate 400 (CHR ''a'')) \<noteq> []" "trim ('' '' @ replicate 400 (CHR ''b'')) \<noteq> []"
    by (simp_all add: trim_nonempty_iff isWhitespace_def)
  ultimately show ?thesis
    by (simp add: splitIntoSentences_def) (simp add: trim_def)
qed

text \<open>
  The theorem for C3 on a document of two sentences of 400 characters.
\<close>

theorem C3_single_chunk_document_witness:
  "estimateTokens (joinWith '' '' (splitIntoSentences (doc_content twoSentenceDoc))) \<le> CHUNK_maxTokens
   \<and> CHUNK_minChunkSize \<le> estimateTokens (joinWith '' '' (splitIntoSentences (doc_content twoSentenceDoc)))
   \<and> (\<exists>c. chunkDocument (uuidOf ''c'') twoSentenceDoc = [c]
          \<and> chunk_content c = replicate 400 (CHR ''a'') @ ''  '' @ replicate 400 (CHR ''b'')
          \<and> significant (chunk_content c) = significant (doc_content twoSentenceDoc))"
proof -
  have j: "joinWith '' '' (splitIntoSentences (doc_content twoSentenceDoc))
         = replicate 400 (CHR ''a'') @ ''  '' @ replicate 400 (CHR ''b'')"
    by (simp add: twoSentenceDoc_sentences)
  have e: "estimateTokens (replicate 400 (CHR ''a'') @ ''  '' @ replicate 400 (CHR ''b'')) = 201"
    by (simp add: estimateTokens_def)
  have h: "estimateTokens (joinWith '' '' (splitIntoSentences (doc_content twoSentenceDoc))) \<le> CHUNK_maxTokens"
    by (simp add: j estimateTokens_def CHUNK_maxTokens_def)
  have t: "trim (replicate 400 (CHR ''a'') @ ''  '' @ replicate 400 (CHR ''b''))
         = replicate 400 (CHR ''a'') @ ''  '' @ replicate 400 (CHR ''b'')"
    by (rule trim_id) (simp_all add: isWhitespace_def)
  from C3_single_chunk_document[OF h, of "uuidOf ''c''"]
  show ?thesis
    unfolding j t using e by (simp add: CHUNK_maxTokens_def CHUNK_minChunkSize_def)
qed

section \<open>Properties of the store, the search and the folder context\<close>

lemma digitChar_code: "n < 10 \<Longrightarrow> (of_char (digitChar n) :: nat) = 48 + n"
  by (simp add: digitChar_def)

lemma digitChar_inj:
  assumes "a < 10" "b < 10" "digitChar a = digitChar b"
  shows "a = b"
proof -
  have "(of_char (digitChar a) :: nat) = of_char (digitChar b)" by (simp only: assms(3))
  then have "48 + a = 48 + b"
    by (simp only: digitChar_code[OF assms(1)] digitChar_code[OF assms(2)])
  then show ?thesis by simp
qed

lemma digitChar_not_minus: "n < 10 \<Longrightarrow> digitChar n \<noteq> CHR ''-''"
proof
  assume "n < 10" "digitChar n = CHR ''-''"
  then have "(of_char (CHR ''-'') :: nat) = 48 + n" using digitChar_code by metis
  then show False by simp
qed

lemma digitsOf_nonempty: "digitsOf n \<noteq> []"
  by (subst digitsOf.simps) simp

lemma digitsOf_no_minus: "CHR ''-'' \<notin> set (digitsOf n)"
proof (induction n rule: digitsOf.induct)
  case (1 n)
  show ?case
  proof (cases "n < 10")
    case True
    then show ?thesis using digitChar_not_minus[of n] by (subst digitsOf.simps) auto
  next
    case False
    then have "CHR ''-'' \<notin> set (digitsOf (n div 10))" using 1 by simp
    moreover have "digitChar (n mod 10) \<noteq> CHR ''-''" by (rule digitChar_not_minus) simp
    ultimately show ?thesis using False by (subst digitsOf.simps) auto
  qed
qed

lemma digitsOf_inj: "digitsOf a = digitsOf b \<Longrightarrow> a = b"
proof (induction a arbitrary: b rule: digitsOf.induct)
  case (1 a)
  have ea: "digitsOf a = (if a < 10 then [digitChar a] else digitsOf (a div 10) @ [digitChar (a mod 10)])"
    by (subst digitsOf.simps) simp
  have eb: "digitsOf b = (if b < 10 then [digitChar b] else digitsOf (b div 10) @ [digitChar (b mod 10)])"
    by (subst digitsOf.simps) simp
  show ?case
  proof (cases "a < 10")
    case True
    show ?thesis
    proof (cases "b < 10")
      case True
      with \<open>a < 10\<close> "1.prems" ea eb show ?thesis by (simp add: digitChar_inj)
    next
      case False
      with True "1.prems" ea eb digitsOf_nonempty[of "b div 10"] show ?thesis by auto
    qed
  next
    case False
    show ?thesis
    proof (cases "b < 10")
      case True
      with False "1.prems" ea eb digitsOf_nonempty[of "a div 10"] show ?thesis by auto
    next
      case bF: False
      with False "1.prems" ea eb
      have "digitsOf (a div 10) = digitsOf (b div 10)" "digitChar (a mod 10) = digitChar (b mod 10)"
        by auto
      then have "a div 10 = b div 10" "a mod 10 = b mod 10"
        using "1.IH"[OF False] digitChar_inj[of "a mod 10" "b mod 10"] by auto
      then show ?thesis by (metis div_mult_mod_eq)
    qed
  qed
qed

lemma split_at_first:
  assumes "x \<notin> set xs" "x \<notin> set xs'" "xs @ x # ys = xs' @ x # ys'"
  shows "xs = xs' \<and> ys = ys'"
proof -
  have "takeWhile (\<lambda>c. c \<noteq> x) (xs @ x # ys) = xs"
       "takeWhile (\<lambda>c. c \<noteq> x) (xs' @ x # ys') = xs'"
    using assms(1,2) by (auto simp: takeWhile_tail)
  then have "xs = xs'" using assms(3) by simp
  then show ?thesis using assms(3) by simp
qed

lemma digits_then_minus:
  assumes "digitsOf a @ CHR ''-'' # u = digitsOf b @ CHR ''-'' # u'"
  shows "a = b \<and> u = u'"
  using split_at_first[OF digitsOf_no_minus digitsOf_no_minus assms] digitsOf_inj by blast

lemma hd_digitsOf: "hd (digitsOf n @ r) \<noteq> CHR ''-''"
proof -
  have "hd (digitsOf n @ r) = hd (digitsOf n)" using digitsOf_nonempty by simp
  moreover have "hd (digitsOf n) \<in> set (digitsOf n)" using digitsOf_nonempty by simp
  ultimately show ?thesis using digitsOf_no_minus[of n] by auto
qed

lemma showInt_inj:
  assumes "showInt f @ CHR ''-'' # u = showInt f' @ CHR ''-'' # u'"
  shows "f = f' \<and> u = u'"
proof (cases "f < 0")
  case True
  show ?thesis
  proof (cases "f' < 0")
    case True
    with \<open>f < 0\<close> assms
    have "digitsOf (nat (- f)) @ CHR ''-'' # u = digitsOf (nat (- f')) @ CHR ''-'' # u'"
      by (simp add: showInt_def)
    then have "nat (- f) = nat (- f') \<and> u = u'" by (rule digits_then_minus)
    with True \<open>f < 0\<close> show ?thesis by auto
  next
    case False
    with True assms have "CHR ''-'' # digitsOf (nat (- f)) @ CHR ''-'' # u = digitsOf (nat f') @ CHR ''-'' # u'"
      by (simp add: showInt_def)
    then have "hd (digitsOf (nat f') @ CHR ''-'' # u') = CHR ''-''"
      using list.sel(1) by metis
    with hd_digitsOf show ?thesis by blast
  qed
next
  case False
  show ?thesis
  proof (cases "f' < 0")
    case True
    with False assms have "digitsOf (nat f) @ CHR ''-'' # u = CHR ''-'' # digitsOf (nat (- f')) @ CHR ''-'' # u'"
      by (simp add: showInt_def)
    then have "hd (digitsOf (nat f) @ CHR ''-'' # u) = CHR ''-''"
      by simp
    with hd_digitsOf show ?thesis by blast
  next
    case f'F: False
    with False assms
    have "digitsOf (nat f) @ CHR ''-'' # u = digitsOf (nat f') @ CHR ''-'' # u'"
      by (simp add: showInt_def)
    then have "nat f = nat f' \<and> u = u'" by (rule digits_then_minus)
    with False f'F show ?thesis by auto
  qed
qed

lemma memoryKey_inj:
  "memoryKey kind f u = memoryKey kind f' u' \<Longrightarrow> f = f' \<and> u = u'"
  by (rule showInt_inj) (simp add: memoryKey_def)

lemma memoryKey_kinds:
  "memoryKey ''chunks'' f u \<noteq> memoryKey ''docs'' f' u'"
  "memoryKey ''chunks'' f u \<noteq> memoryKey ''embeddings'' f' u'"
  "memoryKey ''chunks'' f u \<noteq> memoryKey ''graph'' f' u'"
  "memoryKey ''docs'' f u \<noteq> memoryKey ''chunks'' f' u'"
  "memoryKey ''embeddings'' f u \<noteq> memoryKey ''chunks'' f' u'"
  "memoryKey ''graph'' f u \<noteq> memoryKey ''chunks'' f' u'"
  by (simp_all add: memoryKey_def)

lemma memoryChunks_upd_other:
  "(\<And>cs. v \<noteq> StoredChunks cs) \<Longrightarrow>
     memoryChunks (st\<lparr>memoryStore := (memoryStore st)(k \<mapsto> v)\<rparr>) k' =
       (if k' = k then [] else memoryChunks st k')"
  by (cases v) (auto simp: memoryChunks_def)

lemma getChunks_db:
  "\<not> fallbackToMemory st \<Longrightarrow> c \<in> set (getChunks st f u) \<Longrightarrow> chunk_folderId c = f \<and> chunk_userId c = u"
  by (auto simp: getChunks_def getAllFromIndex_def split: if_splits)

lemma chunksScoped_db: "\<not> fallbackToMemory st \<Longrightarrow> chunksScoped st"
  using getChunks_db by (auto simp: chunksScoped_def)

lemma chunksScoped_new: "chunksScoped (newService a b)"
  by (auto simp: chunksScoped_def getChunks_def newService_def memoryChunks_def getAllFromIndex_def)

lemma chunksScoped_memory_eq:
  assumes "chunksScoped st" "fallbackToMemory st'" 
    and "\<And>f u. memoryChunks st' (memoryKey ''chunks'' f u) = memoryChunks st (memoryKey ''chunks'' f u)
              \<or> memoryChunks st' (memoryKey ''chunks'' f u) = []"
    and "fallbackToMemory st"
  shows "chunksScoped st'"
  unfolding chunksScoped_def
proof (intro allI ballI)
  fix f u c assume c: "c \<in> set (getChunks st' f u)"
  then have "c \<in> set (memoryChunks st' (memoryKey ''chunks'' f u))"
    using assms(2) by (simp add: getChunks_def)
  then have "c \<in> set (memoryChunks st (memoryKey ''chunks'' f u))"
    using assms(3)[of f u] by auto
  then have "c \<in> set (getChunks st f u)" using assms(4) by (simp add: getChunks_def)
  then show "chunk_folderId c = f \<and> chunk_userId c = u"
    using assms(1) by (simp add: chunksScoped_def)
qed

lemma chunksScoped_storeDocument:
  assumes "chunksScoped st" "storeDocument st d = Inr st'"
  shows "chunksScoped st'"
proof (cases "fallbackToMemory st")
  case False
  then have "\<not> fallbackToMemory st'"
    using assms(2) by (auto simp: storeDocument_def split: if_splits sum.splits)
  then show ?thesis by (rule chunksScoped_db)
next
  case True
  then have st': "st' = st\<lparr>memoryStore := (memoryStore st)(memoryKey ''docs'' (doc_folderId d) (doc_userId d)
                 \<mapsto> StoredDocuments (memoryDocuments st (memoryKey ''docs'' (doc_folderId d) (doc_userId d)) @ [d]))\<rparr>"
    using assms(2) by (simp add: storeDocument_def Let_def)
  show ?thesis
    by (rule chunksScoped_memory_eq[OF assms(1) _ _ True])
       (simp_all add: st' True memoryChunks_upd_other memoryKey_kinds)
qed

lemma chunksScoped_storeEmbedding:
  assumes "chunksScoped st" "storeEmbedding st e = Inr st'"
  shows "chunksScoped st'"
proof (cases "fallbackToMemory st")
  case False
  then have "\<not> fallbackToMemory st'"
    using assms(2) by (auto simp: storeEmbedding_def split: if_splits sum.splits)
  then show ?thesis by (rule chunksScoped_db)
next
  case True
  then have st': "st' = st\<lparr>memoryStore := (memoryStore st)(memoryKey ''embeddings'' (emb_folderId e) (emb_userId e)
                 \<mapsto> StoredEmbeddings (memoryEmbeddings st (memoryKey ''embeddings'' (emb_folderId e) (emb_userId e)) @ [e]))\<rparr>"
    using assms(2) by (simp add: storeEmbedding_def Let_def)
  show ?thesis
    by (rule chunksScoped_memory_eq[OF assms(1) _ _ True])
       (simp_all add: st' True memoryChunks_upd_other memoryKey_kinds)
qed

lemma chunksScoped_updateKnowledgeGraph:
  assumes "chunksScoped st" "updateKnowledgeGraph st d cs = Inr st'"
  shows "chunksScoped st'"
proof (cases "fallbackToMemory st")
  case False
  then have "\<not> fallbackToMemory st'"
    using assms(2)
    by (auto simp: updateKnowledgeGraph_def storeKnowledgeGraph_def split: if_splits)
  then show ?thesis by (rule chunksScoped_db)
next
  case True
  then have st': "st' = st\<lparr>memoryStore := (memoryStore st)(memoryKey ''graph'' (doc_folderId d) (doc_userId d)
                 \<mapsto> StoredGraph (graphOf d cs))\<rparr>"
    using assms(2) by (simp add: updateKnowledgeGraph_def storeKnowledgeGraph_def Let_def graphOf_def)
  show ?thesis
    by (rule chunksScoped_memory_eq[OF assms(1) _ _ True])
       (simp_all add: st' True memoryChunks_upd_other memoryKey_kinds)
qed

lemma chunksScoped_storeChunk:
  assumes "chunksScoped st" "storeChunk st c = Inr st'"
  shows "chunksScoped st'"
proof (cases "fallbackToMemory st")
  case False
  then have "\<not> fallbackToMemory st'"
    using assms(2) by (auto simp: storeChunk_def split: if_splits sum.splits)
  then show ?thesis by (rule chunksScoped_db)
next
  case True
  let ?K = "memoryKey ''chunks'' (chunk_folderId c) (chunk_userId c)"
  have st': "st' = st\<lparr>memoryStore := (memoryStore st)(?K \<mapsto> StoredChunks (memoryChunks st ?K @ [c]))\<rparr>"
    using assms(2) True by (simp add: storeChunk_def Let_def)
  have fb: "fallbackToMemory st'" by (simp add: st' True)
  show ?thesis
    unfolding chunksScoped_def
  proof (intro allI ballI)
    fix f u x assume x: "x \<in> set (getChunks st' f u)"
    show "chunk_folderId x = f \<and> chunk_userId x = u"
    proof (cases "memoryKey ''chunks'' f u = ?K")
      case True
      then have fu: "f = chunk_folderId c" "u = chunk_userId c"
        using memoryKey_inj by blast+
      have "getChunks st' f u = memoryChunks st ?K @ [c]"
        using fb True by (simp add: getChunks_def st' memoryChunks_def)
      moreover have "memoryChunks st ?K = getChunks st f u"
        using \<open>fallbackToMemory st\<close> True by (simp add: getChunks_def)
      ultimately have "x \<in> set (getChunks st f u) \<or> x = c" using x by auto
      then show ?thesis using assms(1) fu by (auto simp: chunksScoped_def)
    next
      case False
      then have "getChunks st' f u = getChunks st f u"
        using fb \<open>fallbackToMemory st\<close> by (simp add: getChunks_def st' memoryChunks_def)
      then show ?thesis using assms(1) x by (simp add: chunksScoped_def)
    qed
  qed
qed

lemma fallback_removals [simp]:
  "fallbackToMemory (removeDocument st d) = fallbackToMemory st"
  "fallbackToMemory (removeChunksByDocument st d) = fallbackToMemory st"
  "fallbackToMemory (removeEmbeddingsByDocument st d) = fallbackToMemory st"
  "fallbackToMemory (removeKnowledgeGraphs st f u) = fallbackToMemory st"
  by (simp_all add: removeDocument_def removeChunksByDocument_def removeEmbeddingsByDocument_def
        removeKnowledgeGraphs_def Let_def)

lemma deleteDocument_memory: "fallbackToMemory st \<Longrightarrow> deleteDocument st d = st"
  by (simp add: deleteDocument_def removeDocument_def removeChunksByDocument_def
        removeEmbeddingsByDocument_def)

lemma fallback_deleteDocument [simp]:
  "fallbackToMemory (deleteDocument st d) = fallbackToMemory st"
  by (simp add: deleteDocument_def)

lemma chunksScoped_deleteDocument:
  "chunksScoped st \<Longrightarrow> chunksScoped (deleteDocument st d)"
  by (cases "fallbackToMemory st") (simp_all add: deleteDocument_memory chunksScoped_db)

lemma fallback_foldl_delete:
  "fallbackToMemory (foldl (\<lambda>s document. deleteDocument s (doc_id document)) st ds) = fallbackToMemory st"
  by (induction ds arbitrary: st) simp_all

lemma chunksScoped_cleanupFolder:
  assumes "chunksScoped st"
  shows "chunksScoped (cleanupFolder st f u)"
proof (cases "fallbackToMemory st")
  case False
  then have "\<not> fallbackToMemory (cleanupFolder st f u)"
    by (simp add: cleanupFolder_def Let_def fallback_foldl_delete)
  then show ?thesis by (rule chunksScoped_db)
next
  case True
  show ?thesis
    by (rule chunksScoped_memory_eq[OF assms _ _ True])
       (auto simp: cleanupFolder_def True memoryChunks_def)
qed

lemma reachable_chunksScoped: "reachable st \<Longrightarrow> chunksScoped st"
proof (induction rule: reachable.induct)
  case (new a b)
  show ?case by (rule chunksScoped_new)
next
  case (storeDocument st d st')
  then show ?case using chunksScoped_storeDocument by blast
next
  case (storeChunk st c st')
  then show ?case using chunksScoped_storeChunk by blast
next
  case (storeEmbedding st e st')
  then show ?case using chunksScoped_storeEmbedding by blast
next
  case (updateKnowledgeGraph st d cs st')
  then show ?case using chunksScoped_updateKnowledgeGraph by blast
next
  case (deleteDocument st d)
  then show ?case using chunksScoped_deleteDocument by blast
next
  case (cleanupFolder st f u)
  then show ?case using chunksScoped_cleanupFolder by blast
qed

lemma length_insertBy: "length (insertBy cmp x xs) = Suc (length xs)"
  by (induction xs) auto

lemma length_sortBy: "length (sortBy cmp xs) = length xs"
  by (induction xs) (auto simp: sortBy_def length_insertBy)

lemma search_from_chunks:
  assumes "(c, s) \<in> set (searchSimilarContent ge st f u q k)"
  shows "c \<in> set (getChunks st f u)"
proof -
  from assms obtain r where
    "(case find (\<lambda>x. chunk_id x = fst r) (getChunks st f u) of
        Some chunk \<Rightarrow> Some (chunk, snd r) | None \<Rightarrow> None) = Some (c, s)"
    by (auto simp: searchSimilarContent_def Let_def List.map_filter_def)
  then have "find (\<lambda>x. chunk_id x = fst r) (getChunks st f u) = Some c"
    by (auto split: option.splits)
  then show ?thesis by (auto simp: find_Some_iff)
qed

text \<open>
  Claim C1. In every state that the service can reach, for every scope, query and limit,
  each pair returned by \<open>searchSimilarContent\<close> holds a chunk whose \<open>folderId\<close> and
  \<open>userId\<close> are the requested ones. With IndexedDB the chunks come from the index on
  \<open>[folderId, userId]\<close>; in memory mode they come from the key
  \<open>chunks-<folderId>-<userId>\<close>, under which \<open>storeChunk\<close> only ever puts chunks of
  that scope, two scopes never sharing a key.
\<close>

theorem C1_search_stays_in_scope:
  assumes "reachable st"
  shows "\<forall>(chunk, similarity) \<in> set (searchSimilarContent generateEmbedding st folderId userId query limit).
           chunk_folderId chunk = folderId \<and> chunk_userId chunk = userId"
proof (intro ballI, clarify)
  fix chunk similarity
  assume "(chunk, similarity) \<in> set (searchSimilarContent generateEmbedding st folderId userId query limit)"
  then have "chunk \<in> set (getChunks st folderId userId)" by (rule search_from_chunks)
  moreover have "chunksScoped st" using assms by (rule reachable_chunksScoped)
  ultimately show "chunk_folderId chunk = folderId \<and> chunk_userId chunk = userId"
    by (simp add: chunksScoped_def)
qed

lemma set_insertBy: "set (insertBy cmp x xs) = insert x (set xs)"
  by (induction xs) auto

lemma set_sortBy: "set (sortBy cmp xs) = set xs"
  by (induction xs) (auto simp: sortBy_def set_insertBy)

lemma set_sliceTo: "set (sliceTo xs k) \<subseteq> set xs"
  by (auto simp: sliceTo_def dest: in_set_takeD)

lemma length_sliceTo:
  "length (sliceTo xs k) = (if k < 0 then length xs - nat (- k) else min (nat k) (length xs))"
  by (auto simp: sliceTo_def)

lemma sliceTo_negative: "k < 0 \<Longrightarrow> sliceTo xs k = sliceTo xs (int (length xs - nat (- k)))"
  by (simp add: sliceTo_def)

lemma length_map_filter_all:
  "\<forall>x \<in> set xs. f x \<noteq> None \<Longrightarrow> length (List.map_filter f xs) = length xs"
  by (induction xs) (auto simp: List.map_filter_def)

lemma search_negative_limit:
  assumes "limit < 0"
  shows "searchSimilarContent ge st f u q limit
           = searchSimilarContent ge st f u q (int (length (getEmbeddings st f u) - nat (- limit)))"
proof -
  let ?S = "sortBy (\<lambda>a b. jsMinus (snd b) (snd a))
              (map (\<lambda>embedding. (emb_id embedding, cosineSimilarity (ge q) (vector embedding)))
                 (getEmbeddings st f u))"
  have "length ?S = length (getEmbeddings st f u)" by (simp add: length_sortBy)
  then have "sliceTo ?S limit = sliceTo ?S (int (length (getEmbeddings st f u) - nat (- limit)))"
    using sliceTo_negative[OF assms, of ?S] by simp
  then show ?thesis by (simp add: searchSimilarContent_def Let_def)
qed

lemma search_length_exact:
  assumes "\<forall>e \<in> set (getEmbeddings st f u). \<exists>c \<in> set (getChunks st f u). chunk_id c = emb_id e"
  shows "length (searchSimilarContent ge st f u q limit)
           = (if limit < 0 then length (getEmbeddings st f u) - nat (- limit)
              else min (nat limit) (length (getEmbeddings st f u)))"
proof -
  let ?sims = "map (\<lambda>embedding. (emb_id embedding, cosineSimilarity (ge q) (vector embedding)))
                 (getEmbeddings st f u)"
  let ?S = "sortBy (\<lambda>a b. jsMinus (snd b) (snd a)) ?sims"
  let ?look = "\<lambda>result. case find (\<lambda>c. chunk_id c = fst result) (getChunks st f u) of
                        Some chunk \<Rightarrow> Some (chunk, snd result)
                      | None \<Rightarrow> None"
  have "\<forall>r \<in> set (sliceTo ?S limit). ?look r \<noteq> None"
  proof
    fix r assume "r \<in> set (sliceTo ?S limit)"
    then have "r \<in> set ?sims" using set_sliceTo[of ?S limit] by (auto simp: set_sortBy)
    then obtain e where "e \<in> set (getEmbeddings st f u)" "fst r = emb_id e" by auto
    then obtain c where "c \<in> set (getChunks st f u)" "chunk_id c = fst r" using assms by auto
    then have "find (\<lambda>c. chunk_id c = fst r) (getChunks st f u) \<noteq> None"
      by (auto simp: find_None_iff)
    then show "?look r \<noteq> None" by (auto split: option.splits)
  qed
  then have "length (List.map_filter ?look (sliceTo ?S limit)) = length (sliceTo ?S limit)"
    by (rule length_map_filter_all)
  then show ?thesis
    by (simp add: searchSimilarContent_def Let_def length_sliceTo length_sortBy)
qed

text \<open>
  Claim C8, as the code has it: \<open>similarities.slice(0, limit)\<close> is applied to the limit
  unguarded. The result is empty for limit 0 and, for every limit, over a scope without
  stored embeddings. A negative limit \<open>-n\<close> over a scope of \<open>m\<close> stored embeddings
  returns exactly what the limit \<open>max 0 (m - n)\<close> returns. When every stored embedding of
  the scope has its chunk stored in the scope, the
  number of results is exactly \<open>min k m\<close> for a limit \<open>k \<ge> 0\<close> and
  \<open>max 0 (m - n)\<close> for a limit \<open>-n\<close>.
\<close>

theorem C8_empty_results:
  "searchSimilarContent generateEmbedding st folderId userId query 0 = []
   \<and> (getEmbeddings st folderId userId = [] \<longrightarrow>
        searchSimilarContent generateEmbedding st folderId userId query limit = [])
   \<and> (limit < 0 \<longrightarrow>
        searchSimilarContent generateEmbedding st folderId userId query limit
          = searchSimilarContent generateEmbedding st folderId userId query
              (int (length (getEmbeddings st folderId userId) - nat (- limit))))
   \<and> ((\<forall>e \<in> set (getEmbeddings st folderId userId).
          \<exists>c \<in> set (getChunks st folderId userId). chunk_id c = emb_id e) \<longrightarrow>
        length (searchSimilarContent generateEmbedding st folderId userId query limit)
          = (if limit < 0 then length (getEmbeddings st folderId userId) - nat (- limit)
             else min (nat limit) (length (getEmbeddings st folderId userId))))"
proof (intro conjI impI)
  show "searchSimilarContent generateEmbedding st folderId userId query 0 = []"
    by (simp add: searchSimilarContent_def Let_def sliceTo_def List.map_filter_def)
next
  assume "getEmbeddings st folderId userId = []"
  then show "searchSimilarContent generateEmbedding st folderId userId query limit = []"
    by (simp add: searchSimilarContent_def Let_def sliceTo_def sortBy_def List.map_filter_def)
next
  assume "limit < 0"
  then show "searchSimilarContent generateEmbedding st folderId userId query limit
          = searchSimilarContent generateEmbedding st folderId userId query
              (int (length (getEmbeddings st folderId userId) - nat (- limit)))"
    by (rule search_negative_limit)
next
  assume "\<forall>e \<in> set (getEmbeddings st folderId userId).
          \<exists>c \<in> set (getChunks st folderId userId). chunk_id c = emb_id e"
  then show "length (searchSimilarContent generateEmbedding st folderId userId query limit)
          = (if limit < 0 then length (getEmbeddings st folderId userId) - nat (- limit)
             else min (nat limit) (length (getEmbeddings st folderId userId)))"
    by (rule search_length_exact)
qed

lemma reachable_storeChunksLoop:
  "reachable st \<Longrightarrow>
     (case storeChunksLoop st cs of Inl (e, s) \<Rightarrow> reachable s | Inr s \<Rightarrow> reachable s)"
proof (induction cs arbitrary: st)
  case Nil
  then show ?case by simp
next
  case (Cons c cs)
  show ?case
  proof (cases "storeChunk st c")
    case (Inl e)
    then show ?thesis using Cons.prems by simp
  next
    case (Inr st')
    then have "reachable st'" using Cons.prems reachable.storeChunk by blast
    then show ?thesis using Cons.IH Inr by simp
  qed
qed

lemma reachable_generateEmbeddings:
  "reachable st \<Longrightarrow> reachable (generateEmbeddingsForChunks ge st cs)"
  unfolding generateEmbeddingsForChunks_def
proof (induction cs arbitrary: st)
  case Nil
  then show ?case by simp
next
  case (Cons c cs)
  have "reachable (case storeEmbedding st (embeddingOf ge c) of Inl e \<Rightarrow> st | Inr s' \<Rightarrow> s')"
    using Cons.prems reachable.storeEmbedding by (auto split: sum.splits)
  then show ?case using Cons.IH by simp
qed

lemma reachable_processDocumentAsync:
  assumes "reachable st"
  shows "reachable (processDocumentAsync uuid ge st d)"
proof -
  let ?cs = "chunkDocument uuid d"
  note r1 = reachable_storeChunksLoop[OF assms, of ?cs]
  show ?thesis
  proof (cases "storeChunksLoop st ?cs")
    case (Inl p)
    then show ?thesis using r1 by (cases p) (simp add: processDocumentAsync_def Let_def)
  next
    case (Inr s1)
    then have "reachable s1" using r1 by simp
    then have r2: "reachable (generateEmbeddingsForChunks ge s1 ?cs)"
      by (rule reachable_generateEmbeddings)
    then show ?thesis
      using Inr reachable.updateKnowledgeGraph[OF r2]
      by (auto simp: processDocumentAsync_def Let_def split: sum.splits)
  qed
qed

lemma reachable_example: "reachable (exampleService m)"
proof -
  have r0: "reachable (newService m True)" by (rule reachable.new)
  note r1 = reachable_storeChunksLoop[OF r0, of "[chunkInvoice, chunkTerms, chunkRecipe]"]
  show ?thesis
  proof (cases "storeChunksLoop (newService m True) [chunkInvoice, chunkTerms, chunkRecipe]")
    case (Inl p)
    then show ?thesis using r1 by (cases p) (simp add: exampleService_def)
  next
    case (Inr s)
    then have "reachable s" using r1 by simp
    then show ?thesis using Inr by (simp add: exampleService_def reachable_generateEmbeddings)
  qed
qed

lemma example_chunks:
  "getChunks (exampleService True) 1 ''alice'' = [chunkInvoice, chunkTerms]"
  "getChunks (exampleService False) 1 ''alice'' = [chunkInvoice, chunkTerms]"
  by code_simp+

lemma example_embeddings:
  "getEmbeddings (exampleService True) 1 ''alice''
     = [embeddingOf exampleEmbedding chunkInvoice, embeddingOf exampleEmbedding chunkTerms]"
  "getEmbeddings (exampleService False) 1 ''alice''
     = [embeddingOf exampleEmbedding chunkInvoice, embeddingOf exampleEmbedding chunkTerms]"
  by code_simp+

lemma example_no_embeddings:
  "getEmbeddings (exampleService True) 3 ''carol'' = []"
  by code_simp

lemma example_vectors:
  "vector (embeddingOf exampleEmbedding chunkInvoice) = [1, 0]"
  "vector (embeddingOf exampleEmbedding chunkTerms) = [4 / 5, 3 / 5]"
  "emb_id (embeddingOf exampleEmbedding chunkInvoice) = ''c1''"
  "emb_id (embeddingOf exampleEmbedding chunkTerms) = ''c2''"
  "exampleEmbedding ''total amount due'' = [1, 0]"
  by (simp_all add: embeddingOf_def exampleEmbedding_def chunkInvoice_def chunkTerms_def
        exampleChunk_def Let_def)

lemma example_cosine:
  "cosineSimilarity [1, 0] [1, 0] = Num 1"
  "cosineSimilarity [1, 0] [4 / 5, 3 / 5] = Num (4 / 5)"
proof -
  have "sqrt (16 / 25 + 9 / 25) = 1" by simp
  then have m: "magnitude [4 / 5, 3 / 5] = 1" by (simp add: magnitude_def)
  have m1: "magnitude [1, 0] = 1" by (simp add: magnitude_def)
  show "cosineSimilarity [1, 0] [1, 0] = Num 1"
    by (simp add: cosineSimilarity_def Let_def m1 dotProduct_def jsDivide_def)
  show "cosineSimilarity [1, 0] [4 / 5, 3 / 5] = Num (4 / 5)"
    by (simp add: cosineSimilarity_def Let_def m m1 dotProduct_def jsDivide_def)
qed

lemma example_chunk_ids:
  "chunk_id chunkInvoice = ''c1''" "chunk_id chunkTerms = ''c2''"
  by (simp_all add: chunkInvoice_def chunkTerms_def exampleChunk_def)

lemma example_search:
  "searchSimilarContent exampleEmbedding (exampleService m) 1 ''alice'' ''total amount due'' 5
     = [(chunkInvoice, Num 1), (chunkTerms, Num (4 / 5))]"
  "searchSimilarContent exampleEmbedding (exampleService m) 1 ''alice'' ''total amount due'' 10
     = [(chunkInvoice, Num 1), (chunkTerms, Num (4 / 5))]"
  "searchSimilarContent exampleEmbedding (exampleService m) 1 ''alice'' ''total amount due'' (- 1)
     = [(chunkInvoice, Num 1)]"
  "searchSimilarContent exampleEmbedding (exampleService m) 1 ''alice'' ''total amount due'' 1
     = [(chunkInvoice, Num 1)]"
  by (cases m; simp add: searchSimilarContent_def Let_def example_chunks example_embeddings
        example_vectors example_cosine example_chunk_ids sortBy_def sliceTo_def
        List.map_filter_def)+

text \<open>
  The theorem for C1 on the example store in memory mode, searched in the scope of alice:
  both results are hers, the chunk of bob is not among them.
\<close>

theorem C1_search_stays_in_scope_witness:
  "reachable (exampleService False)
   \<and> map (\<lambda>(chunk, similarity). chunk_id chunk)
         (searchSimilarContent exampleEmbedding (exampleService False) 1 ''alice'' ''total amount due'' 5)
       = [''c1'', ''c2'']
   \<and> map (\<lambda>(chunk, similarity). (chunk_folderId chunk, chunk_userId chunk))
         (searchSimilarContent exampleEmbedding (exampleService False) 1 ''alice'' ''total amount due'' 5)
       = [(1, ''alice''), (1, ''alice'')]"
proof -
  have r: "reachable (exampleService False)" by (rule reachable_example)
  from C1_search_stays_in_scope[OF r, of exampleEmbedding 1 "''alice''" "''total amount due''" 5]
  have "chunk_folderId chunkInvoice = 1 \<and> chunk_userId chunkInvoice = ''alice''
      \<and> chunk_folderId chunkTerms = 1 \<and> chunk_userId chunkTerms = ''alice''"
    unfolding example_search(1)[of False] by simp
  then show ?thesis using r by (simp add: example_search(1)[of False] example_chunk_ids)
qed

text \<open>
  Claim C8 as stated fails for a negative limit: \<open>slice(0, -1)\<close> drops the last ranked
  entry only, so limit \<open>-1\<close> on a scope with two embeddings returns one result.
\<close>

theorem C8_counterexample:
  "searchSimilarContent exampleEmbedding (exampleService True) 1 ''alice'' ''total amount due'' (- 1)
     = [(chunkInvoice, Num 1)]"
  by (rule example_search(3))

text \<open>
  The theorem for C8 on the example store: limit 0 and a scope without embeddings give no
  result; in the scope of alice, with two embeddings and their chunks, limit \<open>-1\<close> gives
  the one result of limit 1 and limit 5 gives two.
\<close>

theorem C8_empty_results_witness:
  "searchSimilarContent exampleEmbedding (exampleService True) 1 ''alice'' ''total amount due'' 0 = []
   \<and> getEmbeddings (exampleService True) 3 ''carol'' = []
   \<and> searchSimilarContent exampleEmbedding (exampleService True) 3 ''carol'' ''total amount due'' 5 = []
   \<and> length (getEmbeddings (exampleService True) 1 ''alice'') = 2
   \<and> searchSimilarContent exampleEmbedding (exampleService True) 1 ''alice'' ''total amount due'' (- 1)
       = searchSimilarContent exampleEmbedding (exampleService True) 1 ''alice'' ''total amount due'' 1
   \<and> length (searchSimilarContent exampleEmbedding (exampleService True) 1 ''alice''
               ''total amount due'' (- 1)) = 1
   \<and> length (searchSimilarContent exampleEmbedding (exampleService True) 1 ''alice''
               ''total amount due'' 5) = 2"
proof -
  have paired: "\<forall>e \<in> set (getEmbeddings (exampleService True) 1 ''alice'').
          \<exists>c \<in> set (getChunks (exampleService True) 1 ''alice''). chunk_id c = emb_id e"
    by (simp add: example_embeddings example_chunks example_vectors example_chunk_ids)
  have len: "length (getEmbeddings (exampleService True) 1 ''alice'') = 2"
    by (simp add: example_embeddings)
  note a = C8_empty_results[of exampleEmbedding "exampleService True" 1 "''alice''" "''total amount due''" "- 1"]
  note b = C8_empty_results[of exampleEmbedding "exampleService True" 3 "''carol''" "''total amount due''" 5]
  note c = C8_empty_results[of exampleEmbedding "exampleService True" 1 "''alice''" "''total amount due''" 5]
  show ?thesis
    using a b c paired example_no_embeddings len by (simp add: example_search(4))
qed

lemma example_tokens: "tokenCount chunkInvoice = 6" "tokenCount chunkTerms = 7"
  by (simp_all add: chunkInvoice_def chunkTerms_def exampleChunk_def estimateTokens_def)

lemma example_context:
  "buildContextForQuery exampleEmbedding (exampleService m) 1 ''alice'' ''total amount due'' 2000
     = ''--- invoice.txt ---\<newline>Total amount due: $500\<newline>\<newline>--- terms.txt ---\<newline>Payment within thirty days''"
proof -
  have loop: "contextLoop 2000 [(chunkInvoice, Num 1), (chunkTerms, Num (4 / 5))] ([], 0)
     = ''\<newline>--- invoice.txt ---\<newline>Total amount due: $500\<newline>\<newline>--- terms.txt ---\<newline>Payment within thirty days\<newline>''"
    by (simp add: example_tokens Let_def) (simp add: chunkInvoice_def chunkTerms_def exampleChunk_def)
  have "trim ''\<newline>--- invoice.txt ---\<newline>Total amount due: $500\<newline>\<newline>--- terms.txt ---\<newline>Payment within thirty days\<newline>''
     = ''--- invoice.txt ---\<newline>Total amount due: $500\<newline>\<newline>--- terms.txt ---\<newline>Payment within thirty days''"
    by code_simp
  then show ?thesis
    by (simp only: buildContextForQuery_def Let_def example_search(2) loop)
qed

text \<open>
  Claim C6 on a folder whose configured \<open>ragSimilarityThreshold\<close> is 0.9. The chunk of
  terms.txt scores 0.8 against the query, below the configured threshold, and is part of the
  retrieved context all the same: \<open>buildRAGContext\<close> receives the threshold and does not
  use it, and \<open>buildContextForQuery\<close> compares with the literal 0.7.
\<close>

theorem C6_configured_threshold_ignored:
  "ragSimilarityThreshold (getFolderConfig strictConfigs 1) = 9 / 10
   \<and> includeRAGData (getFolderConfig strictConfigs 1)
   \<and> searchSimilarContent exampleEmbedding (exampleService True) 1 ''alice'' ''total amount due'' 10
       = [(chunkInvoice, Num 1), (chunkTerms, Num (4 / 5))]
   \<and> buildRAGContext exampleEmbedding (exampleService True) 1 ''alice'' ''total amount due''
        (maxRAGTokens (getFolderConfig strictConfigs 1))
        (ragSimilarityThreshold (getFolderConfig strictConfigs 1))
       = ''\<newline>--- FOLDER CONTEXT (Folder ID: 1) ---\<newline>--- invoice.txt ---\<newline>Total amount due: $500\<newline>\<newline>--- terms.txt ---\<newline>Payment within thirty days\<newline>--- END FOLDER CONTEXT ---\<newline>''
   \<and> messages (buildFolderContext strictConfigs exampleEmbedding (exampleService True) 1 ''alice'' []
                  ''total amount due'' ''Base prompt.'' noLimits)
       = [systemMessageOf (buildFolderSystemPrompt ''Base prompt.'' 1
            ''\<newline>--- FOLDER CONTEXT (Folder ID: 1) ---\<newline>--- invoice.txt ---\<newline>Total amount due: $500\<newline>\<newline>--- terms.txt ---\<newline>Payment within thirty days\<newline>--- END FOLDER CONTEXT ---\<newline>'')]"
proof -
  have cfg: "getFolderConfig strictConfigs 1 = DEFAULT_FOLDER_CONFIG\<lparr>ragSimilarityThreshold := 9 / 10\<rparr>"
    by (simp add: strictConfigs_def setFolderConfig_def getFolderConfig_def Let_def spreadConfig_def
          DEFAULT_FOLDER_CONFIG_def)
  have one: "showInt 1 = ''1''" by code_simp
  have rag: "buildRAGContext exampleEmbedding (exampleService True) 1 ''alice'' ''total amount due''
        2000 (9 / 10)
       = ''\<newline>--- FOLDER CONTEXT (Folder ID: 1) ---\<newline>--- invoice.txt ---\<newline>Total amount due: $500\<newline>\<newline>--- terms.txt ---\<newline>Payment within thirty days\<newline>--- END FOLDER CONTEXT ---\<newline>''"
    by (simp add: buildRAGContext_def Let_def example_context one)
  have fc: "messages (buildFolderContext strictConfigs exampleEmbedding (exampleService True) 1 ''alice'' []
                  ''total amount due'' ''Base prompt.'' noLimits)
       = [systemMessageOf (buildFolderSystemPrompt ''Base prompt.'' 1
            (buildRAGContext exampleEmbedding (exampleService True) 1 ''alice'' ''total amount due''
        2000 (9 / 10)))]"
    by (simp add: buildFolderContext_def Let_def cfg DEFAULT_FOLDER_CONFIG_def buildContext_def)
  show ?thesis
    unfolding fc rag cfg using example_search(2)[of True] rag
    by (simp add: DEFAULT_FOLDER_CONFIG_def)
qed

lemma set_dbPut: "set (dbPut key r store) = insert r {x \<in> set store. key x \<noteq> key r}"
  by (auto simp: dbPut_def set_insort_key)

lemma set_dbDelete: "set (dbDelete key k store) \<subseteq> set store"
  by (auto simp: dbDelete_def)

lemma set_foldl_dbDelete:
  "set (foldl (\<lambda>store x. dbDelete key (k x) store) store xs) \<subseteq> set store"
proof (induction xs arbitrary: store)
  case Nil
  then show ?case by simp
next
  case (Cons x xs)
  have "set (foldl (\<lambda>store x. dbDelete key (k x) store) (dbDelete key (k x) store) xs)
          \<subseteq> set (dbDelete key (k x) store)"
    by (rule Cons.IH)
  then show ?case using set_dbDelete[of key "k x" store] by auto
qed

lemma graphs_storeDocument:
  "storeDocument st d = Inr st' \<Longrightarrow> folderKnowledgeGraphs st' = folderKnowledgeGraphs st"
  by (auto simp: storeDocument_def Let_def split: if_splits sum.splits)

lemma graphs_storeChunk:
  "storeChunk st c = Inr st' \<Longrightarrow> folderKnowledgeGraphs st' = folderKnowledgeGraphs st"
  by (auto simp: storeChunk_def Let_def split: if_splits sum.splits)

lemma graphs_storeEmbedding:
  "storeEmbedding st e = Inr st' \<Longrightarrow> folderKnowledgeGraphs st' = folderKnowledgeGraphs st"
  by (auto simp: storeEmbedding_def Let_def split: if_splits sum.splits)

lemma graphs_deleteDocument:
  "folderKnowledgeGraphs (deleteDocument st d) = folderKnowledgeGraphs st"
  by (simp add: deleteDocument_def removeDocument_def removeChunksByDocument_def
        removeEmbeddingsByDocument_def Let_def)

lemma graphs_foldl_deleteDocument:
  "folderKnowledgeGraphs (foldl (\<lambda>s document. deleteDocument s (doc_id document)) st ds)
     = folderKnowledgeGraphs st"
  by (induction ds arbitrary: st) (simp_all add: graphs_deleteDocument)

lemma graphIdsDerived_subset:
  "graphIdsDerived st \<Longrightarrow> set (folderKnowledgeGraphs st') \<subseteq> set (folderKnowledgeGraphs st)
     \<Longrightarrow> graphIdsDerived st'"
  by (auto simp: graphIdsDerived_def)

lemma graph_id_graphOf: "graph_id (graphOf d cs) = showInt (graph_folderId (graphOf d cs)) @ ''-graph''"
  by (simp add: graphOf_def)

lemma graphIdsDerived_update:
  assumes "graphIdsDerived st" "updateKnowledgeGraph st d cs = Inr st'"
  shows "graphIdsDerived st'"
proof (cases "fallbackToMemory st")
  case True
  then have "folderKnowledgeGraphs st' = folderKnowledgeGraphs st"
    using assms(2) by (auto simp: updateKnowledgeGraph_def storeKnowledgeGraph_def Let_def)
  then show ?thesis using assms(1) by (simp add: graphIdsDerived_def)
next
  case False
  then have "folderKnowledgeGraphs st' = dbPut graph_id (graphOf d cs) (folderKnowledgeGraphs st)"
    using assms(2) by (auto simp: updateKnowledgeGraph_def storeKnowledgeGraph_def split: if_splits)
  then show ?thesis
    using assms(1) graph_id_graphOf[of d cs] by (auto simp: graphIdsDerived_def set_dbPut)
qed

lemma graphIdsDerived_cleanupFolder:
  assumes "graphIdsDerived st"
  shows "graphIdsDerived (cleanupFolder st f u)"
proof -
  have "set (folderKnowledgeGraphs (cleanupFolder st f u)) \<subseteq> set (folderKnowledgeGraphs st)"
    using set_foldl_dbDelete[of graph_id graph_id]
    by (auto simp: cleanupFolder_def Let_def removeKnowledgeGraphs_def graphs_foldl_deleteDocument)
  then show ?thesis using assms graphIdsDerived_subset by blast
qed

lemma reachable_graphIdsDerived: "reachable st \<Longrightarrow> graphIdsDerived st"
proof (induction rule: reachable.induct)
  case (new a b)
  show ?case by (simp add: graphIdsDerived_def newService_def)
next
  case (storeDocument st d st')
  then show ?case using graphs_storeDocument by (simp add: graphIdsDerived_def)
next
  case (storeChunk st c st')
  then show ?case using graphs_storeChunk by (simp add: graphIdsDerived_def)
next
  case (storeEmbedding st e st')
  then show ?case using graphs_storeEmbedding by (simp add: graphIdsDerived_def)
next
  case (updateKnowledgeGraph st d cs st')
  then show ?case using graphIdsDerived_update by blast
next
  case (deleteDocument st d)
  then show ?case by (simp add: graphIdsDerived_def graphs_deleteDocument)
next
  case (cleanupFolder st f u)
  then show ?case using graphIdsDerived_cleanupFolder by blast
qed

lemma update_then_get:
  assumes "graphIdsDerived st" "updateKnowledgeGraph st d cs = Inr st'"
  shows "getKnowledgeGraph st' (doc_folderId d) (doc_userId d) = Some (graphOf d cs)"
proof (cases "fallbackToMemory st")
  case True
  then have "st' = st\<lparr>memoryStore := (memoryStore st)(memoryKey ''graph'' (doc_folderId d) (doc_userId d)
                 \<mapsto> StoredGraph (graphOf d cs))\<rparr>"
    using assms(2) by (simp add: updateKnowledgeGraph_def storeKnowledgeGraph_def Let_def graphOf_def)
  then show ?thesis using True by (simp add: getKnowledgeGraph_def)
next
  case False
  let ?g = "graphOf d cs"
  let ?P = "\<lambda>g. graph_folderId g = doc_folderId d \<and> graph_userId g = doc_userId d"
  have opens: "dbOpens st"
    using assms(2) False by (auto simp: updateKnowledgeGraph_def storeKnowledgeGraph_def split: if_splits)
  then have st': "st' = st\<lparr>folderKnowledgeGraphs := dbPut graph_id ?g (folderKnowledgeGraphs st)\<rparr>"
    using assms(2) False by (auto simp: updateKnowledgeGraph_def storeKnowledgeGraph_def)
  let ?L = "filter ?P (dbPut graph_id ?g (folderKnowledgeGraphs st))"
  have Pg: "?P ?g" by (simp add: graphOf_def)
  have "\<And>x. x \<in> set (folderKnowledgeGraphs st) \<Longrightarrow> ?P x \<Longrightarrow> graph_id x = graph_id ?g"
    using assms(1) by (simp add: graphIdsDerived_def graphOf_def)
  then have setL: "set ?L = {?g}" using Pg by (auto simp: set_dbPut)
  then obtain x xs where L: "?L = x # xs" by (cases ?L) auto
  then have "x \<in> set ?L" by simp
  then have "x = ?g" using setL by blast
  then show ?thesis
    using L False opens by (simp add: getKnowledgeGraph_def st' getAllFromIndex_def)
qed

text \<open>
  Claim C7, as the code has it. \<open>updateKnowledgeGraph\<close> stores the graph of the one
  document it is given, under the key of the scope in memory mode and under the id
  \<open><folderId>-graph\<close> with \<open>put\<close> in IndexedDB, so it replaces what was stored: after
  document A and then document B, the graph read back for the scope of B is exactly the
  graph of B.
\<close>

theorem C7_graph_replaced_by_latest_document:
  assumes "reachable st"
      and "updateKnowledgeGraph st documentA chunksA = Inr st1"
      and "updateKnowledgeGraph st1 documentB chunksB = Inr st2"
  shows "getKnowledgeGraph st2 (doc_folderId documentB) (doc_userId documentB)
           = Some (graphOf documentB chunksB)"
proof -
  have "reachable st1" using assms(1,2) by (rule reachable.updateKnowledgeGraph)
  then have "graphIdsDerived st1" by (rule reachable_graphIdsDerived)
  then show ?thesis using assms(3) by (rule update_then_get)
qed

text \<open>
  Claim C7 as stated fails: after invoice.txt and then terms.txt in one scope, in either
  storage mode, the stored graph holds the document node and the concept nodes and edges of
  terms.txt only; the node of invoice.txt is gone.
\<close>

theorem C7_counterexample:
  "map_option (\<lambda>g. map node_id (nodes g)) (graphAfterBoth True)
     = Some [''docB'', ''c2-concept-payment'', ''c2-concept-within'', ''c2-concept-thirty'']
   \<and> map_option (\<lambda>g. map node_id (nodes g)) (graphAfterBoth False)
     = Some [''docB'', ''c2-concept-payment'', ''c2-concept-within'', ''c2-concept-thirty'']
   \<and> map_option (\<lambda>g. map edge_id (edges g)) (graphAfterBoth True)
     = Some [''docB-contains-c2-concept-payment'', ''docB-contains-c2-concept-within'',
             ''docB-contains-c2-concept-thirty'']
   \<and> node_id (documentNodeOf docInvoice [chunkInvoice]) = ''docA''"
  by code_simp

text \<open>
  The theorem for C7 on a new service with IndexedDB.
\<close>

theorem C7_graph_replaced_by_latest_document_witness:
  "reachable (newService True True)
   \<and> updateKnowledgeGraph (newService True True) docInvoice [chunkInvoice] = Inr serviceAfterInvoice
   \<and> updateKnowledgeGraph serviceAfterInvoice docTerms [chunkTerms] = Inr serviceAfterTerms
   \<and> getKnowledgeGraph serviceAfterTerms 1 ''alice'' = Some (graphOf docTerms [chunkTerms])"
proof -
  have r: "reachable (newService True True)" by (rule reachable.new)
  have u1: "updateKnowledgeGraph (newService True True) docInvoice [chunkInvoice] = Inr serviceAfterInvoice"
    by (simp add: updateKnowledgeGraph_def storeKnowledgeGraph_def newService_def serviceAfterInvoice_def
          dbPut_def)
  have ids: "graph_id (graphOf docInvoice [chunkInvoice]) = graph_id (graphOf docTerms [chunkTerms])"
    by (simp add: graphOf_def docInvoice_def docTerms_def exampleDoc_def)
  have u2: "updateKnowledgeGraph serviceAfterInvoice docTerms [chunkTerms] = Inr serviceAfterTerms"
    by (simp add: updateKnowledgeGraph_def storeKnowledgeGraph_def newService_def serviceAfterInvoice_def
          serviceAfterTerms_def dbPut_def ids)
  have sc: "doc_folderId docTerms = 1" "doc_userId docTerms = ''alice''"
    by (simp_all add: docTerms_def exampleDoc_def)
  from C7_graph_replaced_by_latest_document[OF r u1 u2]
  show ?thesis using r u1 u2 by (simp add: sc)
qed

end
